theory Spec2Isabelle
  imports Main "HOL-Library.AList"
begin

section \<open>Python values used by search\_web.py\<close>

text \<open>
  A Python \<open>str\<close> is a sequence of Unicode code points, so it is modelled as a list of
  naturals; \<open>lit\<close> turns an ASCII literal into such a sequence, and the few non-ASCII
  letters of the source's literals are written as their code points.
\<close>

type_synonym pystr = "nat list"

definition lit :: "string \<Rightarrow> pystr" where
  "lit s = map of_char s"

text \<open>\<open>str.isspace\<close> on one code point, which is also what \<open>\s\<close> matches in a
  \<open>str\<close> pattern: the white-space table of CPython 3.\<close>

definition isspace :: "nat \<Rightarrow> bool" where
  "isspace c \<longleftrightarrow>
     (9 \<le> c \<and> c \<le> 13) \<or> (28 \<le> c \<and> c \<le> 32) \<or> c = 133 \<or> c = 160 \<or> c = 5760 \<or>
     (8192 \<le> c \<and> c \<le> 8202) \<or> c = 8232 \<or> c = 8233 \<or> c = 8239 \<or> c = 8287 \<or> c = 12288"

definition lstrip :: "pystr \<Rightarrow> pystr" where
  "lstrip s = dropWhile isspace s"

definition rstrip :: "pystr \<Rightarrow> pystr" where
  "rstrip s = rev (dropWhile isspace (rev s))"

definition strip :: "pystr \<Rightarrow> pystr" where
  "strip s = lstrip (rstrip s)"

text \<open>\<open>s.lstrip(chars)\<close> with an explicit character set.\<close>

definition lstrip_chars :: "pystr \<Rightarrow> pystr \<Rightarrow> pystr" where
  "lstrip_chars chars s = dropWhile (\<lambda>c. c \<in> set chars) s"

text \<open>\<open>s.startswith(p)\<close> and the substring test \<open>m in q\<close>.\<close>

fun startswith :: "pystr \<Rightarrow> pystr \<Rightarrow> bool" where
  "startswith s [] = True"
| "startswith [] (p # ps) = False"
| "startswith (c # cs) (p # ps) = (c = p \<and> startswith cs ps)"

fun str_in :: "pystr \<Rightarrow> pystr \<Rightarrow> bool" where
  "str_in m [] = (m = [])"
| "str_in m (c # cs) = (startswith (c # cs) m \<or> str_in m cs)"

text \<open>\<open>sep.join(parts)\<close>.\<close>

fun join :: "pystr \<Rightarrow> pystr list \<Rightarrow> pystr" where
  "join sep [] = []"
| "join sep [p] = p"
| "join sep (p # q # ps) = p @ sep @ join sep (q # ps)"

text \<open>\<open>re.split(r"\s+", q)\<close>: the pieces between the maximal runs of white space; a
  run at either end leaves an empty piece there, and the empty string gives one empty
  piece.\<close>

function re_split_ws :: "pystr \<Rightarrow> pystr list" where
  "re_split_ws [] = [[]]"
| "re_split_ws (c # cs) =
     (if isspace c then [] # re_split_ws (dropWhile isspace cs)
      else (case re_split_ws cs of
              [] \<Rightarrow> [[c]]
            | p # ps \<Rightarrow> (c # p) # ps))"
  by pat_completeness auto
termination
  by (relation "measure length") (auto simp: length_dropWhile_le less_Suc_eq_le)

text \<open>Decimal rendering of an integer, \<open>str(n)\<close>, and the format \<open>{n:02d}\<close>.\<close>

fun str_nat :: "nat \<Rightarrow> pystr" where
  "str_nat n = (if n < 10 then [48 + n] else str_nat (n div 10) @ [48 + n mod 10])"

declare str_nat.simps [simp del]

definition str_int :: "int \<Rightarrow> pystr" where
  "str_int i = (if i < 0 then 45 # str_nat (nat (- i)) else str_nat (nat i))"

definition fmt_02d :: "int \<Rightarrow> pystr" where
  "fmt_02d i = (if 0 \<le> i \<and> i < 10 then 48 # str_int i else str_int i)"

text \<open>
  JSON values as \<open>json.loads\<close> builds them. A \<open>dict\<close> keeps its insertion order, so an
  object is an association list; a float is kept only up to what the program looks at,
  whether it is zero.
\<close>

datatype pyfloat = Finite int int | Infinite bool | NaN

datatype json =
    JNull
  | JBool bool
  | JInt int
  | JFloat pyfloat
  | JString pystr
  | JArray "json list"
  | JObject "(pystr \<times> json) list"

text \<open>The exceptions that can leave a function of the program. \<open>SystemExit\<close> is what
  \<open>_die\<close> raises; the others are never caught by \<open>main\<close>.\<close>

datatype exn = SystemExit int | JSONDecodeError | RecursionError | TypeError | KeyError

text \<open>
  The library functions whose tables and algorithms are not part of this repository are
  parameters of the model: \<open>str.lower\<close>, the rendering \<open>str(v)\<close> of a value that is not
  a string, \<open>json.loads\<close> (which raises or returns a value), \<open>json.dumps\<close> with
  \<open>indent=2\<close>, and the decimal value of a code point that \<open>\d\<close> matches (any Unicode
  decimal digit, which \<open>int\<close> accepts too).
\<close>

record pylib =
  str_lower :: "pystr \<Rightarrow> pystr"
  py_repr :: "json \<Rightarrow> pystr"
  json_loads :: "pystr \<Rightarrow> exn + json"
  json_dumps_indent :: "json \<Rightarrow> pystr"
  digit_value :: "nat \<Rightarrow> nat option"

text \<open>Truth value of a JSON value, \<open>str(v)\<close>, \<open>d.get(k)\<close> and \<open>d.get(k) or default\<close>.\<close>

fun truthy :: "json \<Rightarrow> bool" where
  "truthy JNull = False"
| "truthy (JBool b) = b"
| "truthy (JInt i) = (i \<noteq> 0)"
| "truthy (JFloat f) = (case f of Finite m e \<Rightarrow> m \<noteq> 0 | _ \<Rightarrow> True)"
| "truthy (JString s) = (s \<noteq> [])"
| "truthy (JArray xs) = (xs \<noteq> [])"
| "truthy (JObject kvs) = (kvs \<noteq> [])"

definition py_str :: "pylib \<Rightarrow> json \<Rightarrow> pystr" where
  "py_str L v = (case v of JString s \<Rightarrow> s | _ \<Rightarrow> py_repr L v)"

definition get_or :: "(pystr \<times> json) list \<Rightarrow> pystr \<Rightarrow> json \<Rightarrow> json" where
  "get_or d k dflt =
     (case map_of d k of
        None \<Rightarrow> dflt
      | Some v \<Rightarrow> if truthy v then v else dflt)"

section \<open>Query classification\<close>

definition complexity_markers :: "pystr list" where
  "complexity_markers =
     [lit ''por'' @ [243] @ lit ''wn'',
      lit ''r'' @ [243, 380] @ lit ''nic'',
      lit ''wady'',
      lit ''zalety'',
      lit ''dlaczego'',
      lit ''jak zrobi'' @ [263],
      lit ''krok po kroku'',
      lit ''strategi'',
      lit ''plan'',
      lit ''analiz'',
      lit ''relacj'',
      lit ''histori'',
      lit ''t'' @ [322] @ lit ''o'',
      lit ''konsekwenc'',
      lit ''wp'' @ [322] @ lit ''yw'',
      lit ''kontrowers'',
      lit ''zale'' @ [380] @ lit ''y'']"

definition classify_query :: "pylib \<Rightarrow> pystr \<Rightarrow> pystr" where
  "classify_query L query =
     (let q = str_lower L (strip query);
          words = filter (\<lambda>w. w \<noteq> []) (re_split_ws q)
      in if length words \<le> 6 then lit ''banal''
         else if list_ex (\<lambda>m. str_in m q) complexity_markers then lit ''complex''
         else if length words \<ge> 12 then lit ''complex''
         else lit ''banal'')"

definition deep_keywords :: "pystr list" where
  "deep_keywords =
     [lit ''3 razy'',
      lit ''trzy razy'',
      lit ''iterac'',
      lit ''seria wyszuka'',
      lit ''zg'' @ [322, 281] @ lit ''bia'',
      lit ''g'' @ [322, 281] @ lit ''bok'',
      lit ''deep'']"

definition simple_keywords :: "pystr list" where
  "simple_keywords =
     [lit ''proste'', lit ''szybko'', lit ''jedno wyszuk'', lit ''jednoraz'', lit ''basic'']"

definition explicit_depth_intent :: "pylib \<Rightarrow> pystr \<Rightarrow> pystr option" where
  "explicit_depth_intent L query =
     (let q = str_lower L query
      in if list_ex (\<lambda>k. str_in k q) deep_keywords then Some (lit ''deep'')
         else if list_ex (\<lambda>k. str_in k q) simple_keywords then Some (lit ''simple'')
         else None)"

section \<open>The changelog short-circuit\<close>

subsection \<open>Version range\<close>

text \<open>
  \<open>re.finditer(r"0\.(\d{2})(?:\.\d+)?", query)\<close>: a match starts with \<open>0.\<close> and two
  digits; the optional group then takes a dot and every digit after it, when there is a
  dot followed by a digit. The search resumes where the match ended, or one
  character further when there is no match here.
\<close>

definition is_digit :: "pylib \<Rightarrow> nat \<Rightarrow> bool" where
  "is_digit L c \<longleftrightarrow> digit_value L c \<noteq> None"

definition two_digits :: "pylib \<Rightarrow> nat \<Rightarrow> nat \<Rightarrow> int option" where
  "two_digits L a b =
     (case (digit_value L a, digit_value L b) of
        (Some x, Some y) \<Rightarrow> Some (int (10 * x + y))
      | _ \<Rightarrow> None)"

definition skip_patch :: "pylib \<Rightarrow> pystr \<Rightarrow> pystr" where
  "skip_patch L s =
     (case s of
        dot # d # rest \<Rightarrow>
          if dot = 46 \<and> is_digit L d then dropWhile (is_digit L) rest else s
      | _ \<Rightarrow> s)"

definition match_version_at :: "pylib \<Rightarrow> pystr \<Rightarrow> (int \<times> pystr) option" where
  "match_version_at L s =
     (case s of
        z # dot # a # b # rest \<Rightarrow>
          if z = 48 \<and> dot = 46 then
            (case two_digits L a b of
               Some minor \<Rightarrow> Some (minor, skip_patch L rest)
             | None \<Rightarrow> None)
          else None
      | _ \<Rightarrow> None)"

function finditer_minors :: "pylib \<Rightarrow> pystr \<Rightarrow> int list" where
  "finditer_minors L [] = []"
| "finditer_minors L (c # cs) =
     (case match_version_at L (c # cs) of
        Some (minor, rest) \<Rightarrow> minor # finditer_minors L rest
      | None \<Rightarrow> finditer_minors L cs)"
  by pat_completeness auto
termination
proof (relation "measure (\<lambda>(L, s). length s)", goal_cases)
  case 1
  show ?case by simp
next
  case (2 L c cs)
  show ?case by simp
next
  case (3 L c cs x minor rest)
  have sp: "length (skip_patch L r) \<le> length r" for r
    by (auto simp: skip_patch_def le_SucI length_dropWhile_le split: list.splits)
  from 3 have m: "match_version_at L (c # cs) = Some (minor, rest)"
    by simp
  then obtain r where "c # cs = 48 # 46 # r" "\<exists>a b r'. r = a # b # r' \<and> rest = skip_patch L r'"
    by (auto simp: match_version_at_def split: list.splits option.splits if_splits)
  then obtain a b r' where r: "cs = 46 # a # b # r'" "rest = skip_patch L r'"
    by auto
  show ?case
    using sp [of r'] r by simp
qed

declare finditer_minors.simps [simp del]

fun py_min :: "int list \<Rightarrow> int" where
  "py_min [] = 0"
| "py_min (x # xs) = fold min xs x"

fun py_max :: "int list \<Rightarrow> int" where
  "py_max [] = 0"
| "py_max (x # xs) = fold max xs x"

definition extract_codex_cli_range :: "pylib \<Rightarrow> pystr \<Rightarrow> (int \<times> int) option" where
  "extract_codex_cli_range L query =
     (let minors = finditer_minors L query
      in if minors = [] then None else Some (py_min minors, py_max minors))"

subsection \<open>Bullets of a release body\<close>

text \<open>\<open>str.splitlines\<close>: a line ends at any of the line boundaries, \<open>\r\n\<close> counting
  as one, and a text that ends with a boundary has no empty last line.\<close>

definition is_linebreak :: "nat \<Rightarrow> bool" where
  "is_linebreak c \<longleftrightarrow>
     (10 \<le> c \<and> c \<le> 13) \<or> (28 \<le> c \<and> c \<le> 30) \<or> c = 133 \<or> c = 8232 \<or> c = 8233"

fun splitlines_from :: "pystr \<Rightarrow> pystr \<Rightarrow> pystr list" where
  "splitlines_from cur [] = (if cur = [] then [] else [cur])"
| "splitlines_from cur [c] =
     (if is_linebreak c then [cur] else [cur @ [c]])"
| "splitlines_from cur (c # d # cs) =
     (if c = 13 \<and> d = 10 then cur # splitlines_from [] cs
      else if is_linebreak c then cur # splitlines_from [] (d # cs)
      else splitlines_from (cur @ [c]) (d # cs))"

definition splitlines :: "pystr \<Rightarrow> pystr list" where
  "splitlines s = splitlines_from [] s"

text \<open>The loop of \<open>_summarize_bullets_from_markdown\<close> over the lines, with the list
  \<open>bullets\<close> built so far; \<open>break\<close> returns it.\<close>

fun bullets_loop :: "int \<Rightarrow> pystr list \<Rightarrow> pystr list \<Rightarrow> pystr list" where
  "bullets_loop limit [] bullets = bullets"
| "bullets_loop limit (line # rest) bullets =
     (let s = strip line
      in if s = [] then bullets_loop limit rest bullets
         else if startswith s (lit ''-'') \<or> startswith s (lit ''*'') then
           (let item = strip (lstrip_chars (lit ''-*'') s)
            in if item \<noteq> [] then
                 (if int (length (bullets @ [item])) \<ge> limit then bullets @ [item]
                  else bullets_loop limit rest (bullets @ [item]))
               else bullets_loop limit rest bullets)
         else bullets_loop limit rest bullets)"

definition summarize_bullets_from_markdown :: "pystr \<Rightarrow> int \<Rightarrow> pystr list" where
  "summarize_bullets_from_markdown body limit = bullets_loop limit (splitlines body) []"

subsection \<open>Effects\<close>

text \<open>
  What a run does is recorded as a trace of events: a \<open>print\<close> to standard output or to
  the error stream (the event holds the argument of \<open>print\<close>), the GET of the releases
  listing and a POST to the chat-completion endpoint. A chat payload is the model, the
  \<open>max_results\<close> of the web plug-in when the payload has \<open>plugins\<close>, and the prompt; a
  prompt is one of the three templates of the source with the values that fill it.
\<close>

datatype prompt =
    SearchPrompt pystr pystr
  | PlanPrompt pystr pystr
  | SynthesisPrompt pystr pystr json json json pystr

record payload =
  p_model :: pystr
  p_plugins :: "int option"
  p_prompt :: prompt

datatype event =
    Print pystr
  | PrintErr pystr
  | HttpGet pystr "(pystr \<times> pystr) list"
  | HttpPost pystr payload

text \<open>What \<open>urlopen\<close> and reading the response give: the decoded body, an
  \<open>HTTPError\<close> with its code and body, or another exception with its text.\<close>

datatype http_result = Body pystr | HTTPError int pystr | Failed pystr

text \<open>The world outside the process: the value of \<open>OPENROUTER_API_KEY\<close>, the answer to
  the GET, and the answer to each POST, which may depend on everything that happened
  before.\<close>

record world =
  environ_api_key :: "pystr option"
  urlopen_get :: http_result
  urlopen_post :: "event list \<Rightarrow> payload \<Rightarrow> http_result"

text \<open>A computation takes the trace so far and returns a value or an exception, and the
  extended trace.\<close>

type_synonym 'a io = "event list \<Rightarrow> (exn + 'a) \<times> event list"

definition return_io :: "'a \<Rightarrow> 'a io" where
  "return_io x t = (Inr x, t)"

definition raise_io :: "exn \<Rightarrow> 'a io" where
  "raise_io e t = (Inl e, t)"

definition bind_io :: "'a io \<Rightarrow> ('a \<Rightarrow> 'b io) \<Rightarrow> 'b io" where
  "bind_io m f t =
     (case m t of
        (Inl e, t') \<Rightarrow> (Inl e, t')
      | (Inr x, t') \<Rightarrow> f x t')"

definition print_io :: "pystr \<Rightarrow> unit io" where
  "print_io s t = (Inr (), t @ [Print s])"

definition die :: "pystr \<Rightarrow> int \<Rightarrow> 'a io" where
  "die message code t = (Inl (SystemExit code), t @ [PrintErr message])"

definition OPENROUTER_URL :: pystr where
  "OPENROUTER_URL = lit ''https://openrouter.ai/api/v1/chat/completions''"

definition GITHUB_RELEASES_API :: pystr where
  "GITHUB_RELEASES_API = lit ''https://api.github.com/repos/openai/codex/releases?per_page=100''"

definition request :: "pylib \<Rightarrow> world \<Rightarrow> pystr \<Rightarrow> payload \<Rightarrow> json io" where
  "request L W api_key pl t =
     (let t' = t @ [HttpPost api_key pl]
      in case urlopen_post W t pl of
           HTTPError code raw \<Rightarrow>
             die (lit ''OpenRouter HTTP error: '' @ str_int code @ [10] @ raw) 2 t'
         | Failed e \<Rightarrow> die (lit ''OpenRouter request failed: '' @ e) 2 t'
         | Body raw \<Rightarrow>
             (case json_loads L raw of
                Inr v \<Rightarrow> (Inr v, t')
              | Inl JSONDecodeError \<Rightarrow>
                  die (lit ''OpenRouter returned non-JSON response:'' @ [10] @ raw) 2 t'
              | Inl e \<Rightarrow> (Inl e, t')))"

definition http_get_json :: "pylib \<Rightarrow> world \<Rightarrow> pystr \<Rightarrow> (pystr \<times> pystr) list \<Rightarrow> json io" where
  "http_get_json L W url headers t =
     (let t' = t @ [HttpGet url headers]
      in case urlopen_get W of
           HTTPError code raw \<Rightarrow> die (lit ''HTTP error: '' @ str_int code @ [10] @ raw) 2 t'
         | Failed e \<Rightarrow> die (lit ''HTTP request failed: '' @ e) 2 t'
         | Body raw \<Rightarrow>
             (case json_loads L raw of
                Inr v \<Rightarrow> (Inr v, t')
              | Inl JSONDecodeError \<Rightarrow> die (lit ''Non-JSON response:'' @ [10] @ raw) 2 t'
              | Inl e \<Rightarrow> (Inl e, t')))"

subsection \<open>The changelog report\<close>

text \<open>\<open>re.fullmatch(r"rust-v0\.(\d{2})\.0", tag)\<close> and the minor it captures.\<close>

definition match_release_tag :: "pylib \<Rightarrow> pystr \<Rightarrow> int option" where
  "match_release_tag L tag =
     (if length tag = 12 \<and> take 8 tag = lit ''rust-v0.'' \<and> drop 10 tag = lit ''.0''
      then two_digits L (tag ! 8) (tag ! 9)
      else None)"

text \<open>The loop that fills the dict \<open>releases\<close>, keyed by minor: a later release with the
  same minor replaces the earlier one and keeps its place.\<close>

fun collect_releases ::
  "pylib \<Rightarrow> int \<Rightarrow> int \<Rightarrow> json list \<Rightarrow> (int \<times> (pystr \<times> json) list) list \<Rightarrow>
     (int \<times> (pystr \<times> json) list) list" where
  "collect_releases L min_minor max_minor [] releases = releases"
| "collect_releases L min_minor max_minor (r # rs) releases =
     (case r of
        JObject d \<Rightarrow>
          (case match_release_tag L (py_str L (get_or d (lit ''tag_name'') (JString []))) of
             None \<Rightarrow> collect_releases L min_minor max_minor rs releases
           | Some minor \<Rightarrow>
               if min_minor \<le> minor \<and> minor \<le> max_minor
               then collect_releases L min_minor max_minor rs (AList.update minor d releases)
               else collect_releases L min_minor max_minor rs releases)
      | _ \<Rightarrow> collect_releases L min_minor max_minor rs releases)"

definition release_url :: "pylib \<Rightarrow> int \<Rightarrow> (pystr \<times> json) list \<Rightarrow> pystr" where
  "release_url L minor r =
     py_str L (get_or r (lit ''html_url'')
       (JString (lit ''https://github.com/openai/codex/releases/tag/rust-v0.'' @ fmt_02d minor @ lit ''.0'')))"

definition no_details_line :: pystr where
  "no_details_line = lit ''- (brak szczeg'' @ [243, 322, 243] @ lit ''w w opisie release)''"

text \<open>The lines that one turn of the loop over \<open>sorted(releases)\<close> appends.\<close>

definition release_lines :: "pylib \<Rightarrow> int \<Rightarrow> (pystr \<times> json) list \<Rightarrow> pystr list" where
  "release_lines L minor r =
     (let url = release_url L minor r;
          date = takeWhile (\<lambda>c. c \<noteq> 84) (py_str L (get_or r (lit ''published_at'') (JString [])));
          published = (if date \<noteq> [] then date else [8212]);
          body = strip (py_str L (get_or r (lit ''body'') (JString [])));
          bullets = summarize_bullets_from_markdown body 8
      in [lit ''0.'' @ fmt_02d minor @ lit ''.0 ('' @ published @ lit ''):'']
         @ (if bullets \<noteq> [] then map (\<lambda>b. lit ''- '' @ b) bullets else [no_details_line])
         @ [lit ''  '' @ [377] @ lit ''r'' @ [243] @ lit ''d'' @ [322] @ lit ''o: '' @ url, []])"

definition missing_minors :: "int \<Rightarrow> int \<Rightarrow> (int \<times> (pystr \<times> json) list) list \<Rightarrow> int list" where
  "missing_minors min_minor max_minor releases =
     filter (\<lambda>m. m \<notin> fst ` set releases) [min_minor..max_minor]"

definition missing_lines :: "int list \<Rightarrow> pystr list" where
  "missing_lines missing =
     (if missing \<noteq> [] then
        [lit ''Brak stabilnych wyda'' @ [324] @ lit '' w tym zakresie dla: ''
           @ join (lit '', '') (map (\<lambda>m. lit ''0.'' @ fmt_02d m @ lit ''.0'') missing), []]
      else [])"

text \<open>The list \<open>lines\<close> of the report; \<open>sorted(releases)\<close> followed by
  \<open>releases[minor]\<close> is the dict's items in the order of their keys.\<close>

definition changelog_lines ::
  "pylib \<Rightarrow> pystr \<Rightarrow> int \<Rightarrow> int \<Rightarrow> (int \<times> (pystr \<times> json) list) list \<Rightarrow> pystr list" where
  "changelog_lines L lang min_minor max_minor releases =
     (let missing = missing_minors min_minor max_minor releases;
          ordered = sort_key fst releases
      in [lit ''TL;DR: Codex CLI 0.'' @ fmt_02d min_minor @ lit ''.0 '' @ [8594] @ lit '' 0.''
            @ fmt_02d max_minor @ lit ''.0'', []]
         @ concat (map (\<lambda>(minor, r). release_lines L minor r) ordered)
         @ missing_lines missing
         @ [[377] @ lit ''r'' @ [243] @ lit ''d'' @ [322] @ lit ''a:'',
            lit ''- https://github.com/openai/codex/releases'']
         @ map (\<lambda>(minor, r). lit ''- '' @ release_url L minor r) ordered
         @ (if lang \<noteq> lit ''pl'' then
              [[], lit ''(Uwaga: lang='' @ lang @ lit ''; tryb TL;DR obecnie wypisuje po polsku.)'']
            else []))"

definition maybe_codex_cli_changelog_tldr ::
  "pylib \<Rightarrow> world \<Rightarrow> pystr \<Rightarrow> pystr \<Rightarrow> (pystr option) io" where
  "maybe_codex_cli_changelog_tldr L W query lang =
     (let q = str_lower L query
      in if \<not> str_in (lit ''codex'') q \<or> \<not> str_in (lit ''cli'') q then return_io None
         else
           (case extract_codex_cli_range L query of
              None \<Rightarrow> return_io None
            | Some (min_minor, max_minor) \<Rightarrow>
                if min_minor > max_minor then return_io None
                else
                  bind_io
                    (http_get_json L W GITHUB_RELEASES_API
                       [(lit ''Accept'', lit ''application/vnd.github+json''),
                        (lit ''User-Agent'', lit ''codex-skill-search-web'')])
                    (\<lambda>data.
                       case data of
                         JArray items \<Rightarrow>
                           (let releases = collect_releases L min_minor max_minor items []
                            in if releases = [] then return_io None
                               else return_io
                                 (Some (rstrip (join [10]
                                    (changelog_lines L lang min_minor max_minor releases)) @ [10])))
                       | _ \<Rightarrow> return_io None)))"

section \<open>The searches\<close>

text \<open>\<open>str(data["choices"][0]["message"]["content"])\<close>, or nothing when any of the
  subscripts raises.\<close>

definition choices_content :: "pylib \<Rightarrow> json \<Rightarrow> pystr option" where
  "choices_content L data =
     (case data of
        JObject d \<Rightarrow>
          (case map_of d (lit ''choices'') of
             Some (JArray (JObject c # cs)) \<Rightarrow>
               (case map_of c (lit ''message'') of
                  Some (JObject m) \<Rightarrow>
                    (case map_of m (lit ''content'') of
                       Some v \<Rightarrow> Some (py_str L v)
                     | None \<Rightarrow> None)
                | _ \<Rightarrow> None)
           | _ \<Rightarrow> None)
      | _ \<Rightarrow> None)"

definition schema_error :: "pylib \<Rightarrow> json \<Rightarrow> pystr" where
  "schema_error L data =
     lit ''Unexpected OpenRouter response schema:'' @ [10] @ json_dumps_indent L data"

definition openrouter_web_search ::
  "pylib \<Rightarrow> world \<Rightarrow> pystr \<Rightarrow> pystr \<Rightarrow> pystr \<Rightarrow> pystr \<Rightarrow> int \<Rightarrow> pystr io" where
  "openrouter_web_search L W api_key model query lang max_results =
     bind_io
       (request L W api_key
          \<lparr>p_model = model, p_plugins = Some max_results, p_prompt = SearchPrompt query lang\<rparr>)
       (\<lambda>data.
          case choices_content L data of
            Some content \<Rightarrow> return_io content
          | None \<Rightarrow> die (schema_error L data) 2)"

text \<open>\<open>text.find("{")\<close> and the loop of \<open>_extract_first_json_object\<close> over the indices
  from \<open>start\<close>.\<close>

definition find_brace :: "pystr \<Rightarrow> int" where
  "find_brace text =
     (if 123 \<in> set text then int (length (takeWhile (\<lambda>c. c \<noteq> 123) text)) else - 1)"

function brace_loop ::
  "pylib \<Rightarrow> pystr \<Rightarrow> nat \<Rightarrow> nat \<Rightarrow> int \<Rightarrow> (pystr \<times> json) list option" where
  "brace_loop L text start i depth =
     (if i < length text then
        (let c = text ! i
         in if c = 123 then brace_loop L text start (i + 1) (depth + 1)
            else if c = 125 then
              (if depth - 1 = 0 then
                 (case json_loads L (take (i + 1 - start) (drop start text)) of
                    Inr (JObject obj) \<Rightarrow> Some obj
                  | _ \<Rightarrow> None)
               else brace_loop L text start (i + 1) (depth - 1))
            else brace_loop L text start (i + 1) depth)
      else None)"
  by pat_completeness auto
termination
  by (relation "measure (\<lambda>(L, text, start, i, depth). length text - i)") auto

declare brace_loop.simps [simp del]

definition extract_first_json_object :: "pylib \<Rightarrow> pystr \<Rightarrow> (pystr \<times> json) list option" where
  "extract_first_json_object L text =
     (let start = find_brace text
      in if start < 0 then None else brace_loop L text (nat start) (nat start) 0)"

text \<open>\<open>obj.setdefault(k, v)\<close> on a dict, and the end of
  \<open>_openrouter_web_search_json_plan\<close> from the reply's text on.\<close>

definition setdefault :: "(pystr \<times> json) list \<Rightarrow> pystr \<Rightarrow> json \<Rightarrow> (pystr \<times> json) list" where
  "setdefault d k v = (if k \<in> fst ` set d then d else d @ [(k, v)])"

definition plan_of_content :: "pylib \<Rightarrow> pystr \<Rightarrow> (pystr \<times> json) list" where
  "plan_of_content L content =
     (let obj = (case extract_first_json_object L content of
                   None \<Rightarrow> []
                 | Some d \<Rightarrow> if d \<noteq> [] then d else []);
          obj1 = setdefault obj (lit ''tldr_bullets'') (JArray []);
          obj2 = setdefault obj1 (lit ''sources'') (JArray [])
      in setdefault obj2 (lit ''followup_queries'') (JArray []))"

definition openrouter_web_search_json_plan ::
  "pylib \<Rightarrow> world \<Rightarrow> pystr \<Rightarrow> pystr \<Rightarrow> pystr \<Rightarrow> pystr \<Rightarrow> int \<Rightarrow> ((pystr \<times> json) list) io" where
  "openrouter_web_search_json_plan L W api_key model query lang max_results =
     bind_io
       (request L W api_key
          \<lparr>p_model = model, p_plugins = Some max_results, p_prompt = PlanPrompt query lang\<rparr>)
       (\<lambda>data.
          case choices_content L data of
            Some content \<Rightarrow> return_io (plan_of_content L content)
          | None \<Rightarrow> die (schema_error L data) 2)"

subsection \<open>The deep search\<close>

text \<open>
  \<open>str(followups[k]) if len(followups) >= k + 1 else fallback\<close>, where \<open>followups\<close> is
  whatever the reply put under \<open>followup_queries\<close>: \<open>len\<close> raises on a number or a
  boolean, a string is indexed by character, and a dict has no key \<open>k\<close>.
\<close>

definition followup_query :: "pylib \<Rightarrow> json \<Rightarrow> nat \<Rightarrow> pystr \<Rightarrow> exn + pystr" where
  "followup_query L followups k fallback =
     (case followups of
        JArray xs \<Rightarrow> if length xs \<ge> k + 1 then Inr (py_str L (xs ! k)) else Inr fallback
      | JString s \<Rightarrow> if length s \<ge> k + 1 then Inr [s ! k] else Inr fallback
      | JObject d \<Rightarrow> if length (remdups (map fst d)) \<ge> k + 1 then Inl KeyError else Inr fallback
      | _ \<Rightarrow> Inl TypeError)"

text \<open>What a \<open>for\<close> loop over a JSON value iterates: the items of a list, the characters
  of a string, the keys of a dict; anything else is not iterable.\<close>

fun iter_json :: "json \<Rightarrow> exn + json list" where
  "iter_json (JArray xs) = Inr xs"
| "iter_json (JString s) = Inr (map (\<lambda>c. JString [c]) s)"
| "iter_json (JObject d) = Inr (map JString (remdups (map fst d)))"
| "iter_json v = Inl TypeError"

record source =
  title :: pystr
  url :: pystr

text \<open>The inner loop of the merge over the items of one step, on the list \<open>sources\<close> and
  the set \<open>seen_urls\<close>; then the outer loop over the steps.\<close>

fun add_sources ::
  "pylib \<Rightarrow> json list \<Rightarrow> source list \<times> pystr set \<Rightarrow> source list \<times> pystr set" where
  "add_sources L [] (sources, seen_urls) = (sources, seen_urls)"
| "add_sources L (s # ss) (sources, seen_urls) =
     (case s of
        JObject d \<Rightarrow>
          (let u = strip (py_str L (get_or d (lit ''url'') (JString [])));
               ti = strip (py_str L (get_or d (lit ''title'') (JString [])))
           in if u = [] \<or> u \<in> seen_urls then add_sources L ss (sources, seen_urls)
              else add_sources L ss
                     (sources @ [\<lparr>title = (if ti \<noteq> [] then ti else u), url = u\<rparr>],
                      insert u seen_urls))
      | _ \<Rightarrow> add_sources L ss (sources, seen_urls))"

fun merge_sources ::
  "pylib \<Rightarrow> (pystr \<times> json) list list \<Rightarrow> source list \<times> pystr set \<Rightarrow>
     exn + source list \<times> pystr set" where
  "merge_sources L [] st = Inr st"
| "merge_sources L (step # steps) st =
     (case iter_json (get_or step (lit ''sources'') (JArray [])) of
        Inl e \<Rightarrow> Inl e
      | Inr items \<Rightarrow> merge_sources L steps (add_sources L items st))"

text \<open>The lines of \<open>numbered_sources\<close>, from \<open>enumerate(sources[:12])\<close>.\<close>

definition numbered_source_lines :: "source list \<Rightarrow> pystr list" where
  "numbered_source_lines sources =
     map (\<lambda>(i, s). lit ''['' @ str_int (int i + 1) @ lit ''] '' @ title s @ lit '' '' @ [8212]
                      @ lit '' '' @ url s)
       (enumerate 0 (take 12 sources))"

definition lift_exn :: "exn + 'a \<Rightarrow> 'a io" where
  "lift_exn r = (case r of Inl e \<Rightarrow> raise_io e | Inr x \<Rightarrow> return_io x)"

definition deep_search_3x ::
  "pylib \<Rightarrow> world \<Rightarrow> pystr \<Rightarrow> pystr \<Rightarrow> pystr \<Rightarrow> pystr \<Rightarrow> int \<Rightarrow> pystr io" where
  "deep_search_3x L W api_key model query lang max_results =
     bind_io (openrouter_web_search_json_plan L W api_key model query lang max_results) (\<lambda>step1.
     let followups = get_or step1 (lit ''followup_queries'') (JArray []) in
     bind_io (lift_exn (followup_query L followups 0
                (query @ lit '' szczeg'' @ [243, 322] @ lit ''y''))) (\<lambda>q2.
     bind_io (lift_exn (followup_query L followups 1
                (query @ lit '' kontekst i '' @ [378] @ lit ''r'' @ [243] @ lit ''d'' @ [322] @ lit ''a''))) (\<lambda>q3.
     bind_io (openrouter_web_search_json_plan L W api_key model q2 lang max_results) (\<lambda>step2.
     bind_io (openrouter_web_search_json_plan L W api_key model q3 lang max_results) (\<lambda>step3.
     bind_io (lift_exn (merge_sources L [step1, step2, step3] ([], {}))) (\<lambda>(sources, seen_urls).
     let numbered_sources = join [10] (numbered_source_lines sources) in
     bind_io
       (request L W api_key
          \<lparr>p_model = model, p_plugins = None,
           p_prompt = SynthesisPrompt query lang (JObject step1) (JObject step2) (JObject step3)
                        numbered_sources\<rparr>)
       (\<lambda>data.
          case choices_content L data of
            Some content \<Rightarrow> return_io (rstrip content @ [10])
          | None \<Rightarrow> die (schema_error L data) 2)))))))"

section \<open>The program\<close>

record args =
  a_query :: pystr
  a_max_results :: int
  a_model :: pystr
  a_lang :: pystr
  a_mode :: pystr

definition menu_text :: pystr where
  "menu_text =
     lit ''To wygl'' @ [261] @ lit ''da na pytanie '' @ [347]
     @ lit ''rednie/trudne. Wybierz tryb wyszukiwania:'' @ [10, 10]
     @ lit ''a) Proste wyszukanie (1 raz) '' @ [8212] @ lit '' odpisz: '' @ [96] @ lit ''proste''
     @ [96] @ lit '' albo uruchom z '' @ [96] @ lit ''--mode simple'' @ [96, 10]
     @ lit ''b) Seria 3 wyszuka'' @ [324] @ lit '' (zg'' @ [322, 281] @ lit ''bianie) + synteza ''
     @ [8212] @ lit '' odpisz: '' @ [96] @ lit ''seria'' @ [96] @ lit '' albo uruchom z '' @ [96]
     @ lit ''--mode deep'' @ [96, 10]"

text \<open>The end of \<open>main\<close>, once the mode is known.\<close>

definition run_mode :: "pylib \<Rightarrow> world \<Rightarrow> pystr \<Rightarrow> args \<Rightarrow> pystr \<Rightarrow> unit io" where
  "run_mode L W api_key a mode =
     (if mode = lit ''deep'' then
        bind_io (deep_search_3x L W api_key (a_model a) (a_query a) (a_lang a) (a_max_results a))
          print_io
      else
        bind_io (openrouter_web_search L W api_key (a_model a) (a_query a) (a_lang a) (a_max_results a))
          (\<lambda>content. print_io (rstrip content @ [10])))"

text \<open>\<open>main\<close> from the lookup of the API key on: the path that asks the model.\<close>

definition llm_path :: "pylib \<Rightarrow> world \<Rightarrow> args \<Rightarrow> unit io" where
  "llm_path L W a =
     (case environ_api_key W of
        None \<Rightarrow> die (lit ''Missing OPENROUTER_API_KEY in environment.'') 2
      | Some api_key \<Rightarrow>
          if api_key = [] then die (lit ''Missing OPENROUTER_API_KEY in environment.'') 2
          else if a_mode a = lit ''auto'' then
            (case explicit_depth_intent L (a_query a) of
               Some explicit \<Rightarrow>
                 if explicit \<noteq> [] then run_mode L W api_key a explicit
                 else if classify_query L (a_query a) = lit ''complex'' then print_io menu_text
                 else run_mode L W api_key a (lit ''simple'')
             | None \<Rightarrow>
                 if classify_query L (a_query a) = lit ''complex'' then print_io menu_text
                 else run_mode L W api_key a (lit ''simple''))
          else run_mode L W api_key a (a_mode a))"

definition main :: "pylib \<Rightarrow> world \<Rightarrow> args \<Rightarrow> unit io" where
  "main L W a =
     (if a_max_results a < 1 \<or> a_max_results a > 20
      then die (lit ''--max-results must be between 1 and 20'') 2
      else
        bind_io (maybe_codex_cli_changelog_tldr L W (a_query a) (a_lang a)) (\<lambda>codex_tldr.
          case codex_tldr of
            None \<Rightarrow> llm_path L W a
          | Some report \<Rightarrow> if report \<noteq> [] then print_io report else llm_path L W a))"

text \<open>The exit status of the process and what it did: 0 when \<open>main\<close> returns, the code of a
  \<open>SystemExit\<close>, and 1 for any other exception, which the interpreter reports.\<close>

definition run :: "pylib \<Rightarrow> world \<Rightarrow> args \<Rightarrow> int \<times> event list" where
  "run L W a =
     (case main L W a [] of
        (Inr u, t) \<Rightarrow> (0, t)
      | (Inl (SystemExit code), t) \<Rightarrow> (code, t)
      | (Inl e, t) \<Rightarrow> (1, t))"

section \<open>Reference definitions\<close>

text \<open>
  The notions the properties below are stated with, and an instance of the library
  parameters on ASCII for the examples.
\<close>

text \<open>
  The words of the specification, to compare the code with: a token is a maximal run of
  characters that are not white space, and a keyword occurs in a text when the text is
  some prefix, the keyword, and some suffix.
\<close>

function ws_tokens :: "pystr \<Rightarrow> pystr list" where
  "ws_tokens s =
     (case dropWhile isspace s of
        [] \<Rightarrow> []
      | c # cs \<Rightarrow> (c # takeWhile (\<lambda>x. \<not> isspace x) cs) # ws_tokens (dropWhile (\<lambda>x. \<not> isspace x) cs))"
  by pat_completeness auto
termination
proof (relation "measure length", goal_cases)
  case 1
  show ?case by simp
next
  case (2 s c cs)
  have "length (dropWhile (\<lambda>x. \<not> isspace x) cs) \<le> length cs"
    by (rule length_dropWhile_le)
  moreover have "length (c # cs) \<le> length s"
    using length_dropWhile_le [of isspace s] 2 by simp
  ultimately show ?case by simp
qed

declare ws_tokens.simps [simp del]

definition occurs_in :: "pystr \<Rightarrow> pystr \<Rightarrow> bool" where
  "occurs_in k q \<longleftrightarrow> (\<exists>pre post. q = pre @ k @ post)"

text \<open>
  An instance of the library on ASCII, for the examples: lower-casing of the letters A to
  Z, the digits 0 to 9, and a \<open>json.loads\<close> that knows three JSON texts (an empty
  object, an empty list and one chat completion) and raises \<open>JSONDecodeError\<close> on any
  other text. The worlds answer every POST with that chat completion and the GET with
  the empty object or the empty list.
\<close>

definition ascii_digit :: "nat \<Rightarrow> nat option" where
  "ascii_digit c = (if 48 \<le> c \<and> c \<le> 57 then Some (c - 48) else None)"

definition ascii_lower :: "pystr \<Rightarrow> pystr" where
  "ascii_lower s = map (\<lambda>c. if 65 \<le> c \<and> c \<le> 90 then c + 32 else c) s"

definition demo_reply_raw :: pystr where
  "demo_reply_raw =
     lit ''{'' @ [34] @ lit ''choices'' @ [34] @ lit '':[{'' @ [34] @ lit ''message'' @ [34]
     @ lit '':{'' @ [34] @ lit ''content'' @ [34] @ lit '':'' @ [34] @ lit ''Here: {} done'' @ [34]
     @ lit ''}}]}''"

definition demo_reply :: json where
  "demo_reply =
     JObject [(lit ''choices'',
       JArray [JObject [(lit ''message'',
         JObject [(lit ''content'', JString (lit ''Here: {} done''))])]])]"

definition ascii_lib :: pylib where
  "ascii_lib =
     \<lparr>str_lower = ascii_lower,
      py_repr = (\<lambda>v. lit ''?''),
      json_loads = (\<lambda>s. if s = lit ''{}'' then Inr (JObject [])
                         else if s = lit ''[]'' then Inr (JArray [])
                         else if s = demo_reply_raw then Inr demo_reply
                         else Inl JSONDecodeError),
      json_dumps_indent = (\<lambda>v. lit ''?''),
      digit_value = ascii_digit\<rparr>"

definition demo_world :: "pystr option \<Rightarrow> world" where
  "demo_world key =
     \<lparr>environ_api_key = key,
      urlopen_get = Body (lit ''{}''),
      urlopen_post = (\<lambda>t pl. Body demo_reply_raw)\<rparr>"

definition demo_world_list :: "pystr option \<Rightarrow> world" where
  "demo_world_list key = (demo_world key)\<lparr>urlopen_get := Body (lit ''[]'')\<rparr>"

definition demo_query :: pystr where
  "demo_query = lit ''por'' @ [243] @ lit ''wnaj wady i zalety X i Y''"

definition demo_args :: "pystr \<Rightarrow> int \<Rightarrow> pystr \<Rightarrow> args" where
  "demo_args q n mode =
     \<lparr>a_query = q, a_max_results = n, a_model = lit ''m'', a_lang = lit ''pl'', a_mode = mode\<rparr>"

text \<open>
  A bullet line and its item: the line, once trimmed, starts with \<open>-\<close> or \<open>*\<close>, and the
  item is what is left of it after the leading run of \<open>-\<close> and \<open>*\<close>, trimmed, when
  that is not empty.
\<close>

definition bullet_item :: "pystr \<Rightarrow> pystr option" where
  "bullet_item line =
     (let s = strip line; item = strip (lstrip_chars (lit ''-*'') s)
      in if (startswith s (lit ''-'') \<or> startswith s (lit ''*'')) \<and> item \<noteq> [] then Some item
         else None)"

definition bullet_items :: "pystr \<Rightarrow> pystr list" where
  "bullet_items body = List.map_filter bullet_item (splitlines body)"

text \<open>
  A minor is fetched when the listing has a release whose tag is \<open>rust-v0.NN.0\<close> with
  that minor; the note line of the report for a list of missing minors.
\<close>

definition fetched_minor :: "pylib \<Rightarrow> json list \<Rightarrow> int \<Rightarrow> bool" where
  "fetched_minor L items m \<longleftrightarrow>
     (\<exists>d. JObject d \<in> set items \<and>
          match_release_tag L (py_str L (get_or d (lit ''tag_name'') (JString []))) = Some m)"



text \<open>
  The matches of the version pattern in the words of the specification. A text has a
  version when \<open>0.\<close> and two digits occur in it. A patch before a rest is either
  nothing, the rest then not starting with a dot and a digit, or a dot and all the
  digits that follow it. The matches are found from left to right: the first one starts
  at the first \<open>0.NN\<close> of the text and extends over its patch, and the next ones are
  those of what follows it; what a match covers is not searched again.
\<close>

definition has_version :: "pylib \<Rightarrow> pystr \<Rightarrow> bool" where
  "has_version L s \<longleftrightarrow>
     (\<exists>pre a b post. s = pre @ [48, 46, a, b] @ post \<and> is_digit L a \<and> is_digit L b)"

definition is_patch :: "pylib \<Rightarrow> pystr \<Rightarrow> pystr \<Rightarrow> bool" where
  "is_patch L patch rest \<longleftrightarrow>
     (patch = [] \<and> \<not> (\<exists>d r. rest = 46 # d # r \<and> is_digit L d)) \<or>
     (\<exists>ds. patch = 46 # ds \<and> ds \<noteq> [] \<and> list_all (is_digit L) ds \<and>
           \<not> (\<exists>d r. rest = d # r \<and> is_digit L d))"

inductive version_matches :: "pylib \<Rightarrow> pystr \<Rightarrow> int list \<Rightarrow> bool" where
  vm_none: "\<not> has_version L q \<Longrightarrow> version_matches L q []"
| vm_match:
    "q = pre @ [48, 46, a, b] @ patch @ rest \<Longrightarrow>
     \<not> has_version L (pre @ [48, 46, a]) \<Longrightarrow>
     two_digits L a b = Some m \<Longrightarrow>
     is_patch L patch rest \<Longrightarrow>
     version_matches L rest ms \<Longrightarrow>
     version_matches L q (m # ms)"

definition substring_minors :: "pylib \<Rightarrow> pystr \<Rightarrow> int set" where
  "substring_minors L q =
     {m. \<exists>pre a b post. q = pre @ [48, 46, a, b] @ post \<and> two_digits L a b = Some m}"

text \<open>
  The first balanced chunk of a text: from its first \<open>{\<close> on, the shortest non-empty
  prefix in which the braces opened and the braces closed are as many. The plan with
  nothing in it has the three keys with empty lists.
\<close>

definition brace_depth :: "pystr \<Rightarrow> int" where
  "brace_depth s = int (count_list s 123) - int (count_list s 125)"

definition balanced_end :: "pystr \<Rightarrow> nat \<Rightarrow> nat option" where
  "balanced_end s k = List.find (\<lambda>n. brace_depth (take n s) = 0) [k..<Suc (length s)]"

definition first_balanced :: "pystr \<Rightarrow> pystr option" where
  "first_balanced text =
     (let s = dropWhile (\<lambda>c. c \<noteq> 123) text
      in map_option (\<lambda>n. take n s) (balanced_end s 1))"

definition parse_object :: "pylib \<Rightarrow> pystr \<Rightarrow> (pystr \<times> json) list option" where
  "parse_object L chunk =
     (case json_loads L chunk of
        Inr (JObject obj) \<Rightarrow> Some obj
      | _ \<Rightarrow> None)"

definition plan_keys :: "pystr list" where
  "plan_keys = [lit ''tldr_bullets'', lit ''sources'', lit ''followup_queries'']"

definition empty_plan :: "(pystr \<times> json) list" where
  "empty_plan =
     [(lit ''tldr_bullets'', JArray []), (lit ''sources'', JArray []),
      (lit ''followup_queries'', JArray [])]"

text \<open>
  The candidate of an item of a step (a dict with a non-empty trimmed url, titled by its
  trimmed title, or by the url when that is empty), the candidates of a step, and the
  list that keeps the first entry of every url.
\<close>

definition source_of_item :: "pylib \<Rightarrow> json \<Rightarrow> source option" where
  "source_of_item L s =
     (case s of
        JObject d \<Rightarrow>
          (let u = strip (py_str L (get_or d (lit ''url'') (JString [])));
               ti = strip (py_str L (get_or d (lit ''title'') (JString [])))
           in if u = [] then None else Some \<lparr>title = (if ti \<noteq> [] then ti else u), url = u\<rparr>)
      | _ \<Rightarrow> None)"

definition step_items :: "(pystr \<times> json) list \<Rightarrow> json list" where
  "step_items step =
     (case iter_json (get_or step (lit ''sources'') (JArray [])) of
        Inl e \<Rightarrow> []
      | Inr items \<Rightarrow> items)"

definition step_candidates :: "pylib \<Rightarrow> (pystr \<times> json) list \<Rightarrow> source list" where
  "step_candidates L step = List.map_filter (source_of_item L) (step_items step)"

definition iterable :: "(pystr \<times> json) list \<Rightarrow> bool" where
  "iterable step \<longleftrightarrow> (\<exists>items. iter_json (get_or step (lit ''sources'') (JArray [])) = Inr items)"

fun first_by_url :: "source list \<Rightarrow> source list" where
  "first_by_url [] = []"
| "first_by_url (s # ss) = s # first_by_url (filter (\<lambda>x. url x \<noteq> url s) ss)"

text \<open>Two steps for the examples; both have a source with the url \<open>u1\<close>.\<close>

definition demo_step1 :: "(pystr \<times> json) list" where
  "demo_step1 =
     [(lit ''sources'',
       JArray [JObject [(lit ''title'', JString (lit ''A'')), (lit ''url'', JString (lit ''u1''))],
               JObject [(lit ''url'', JString (lit '' u2 ''))]])]"

definition demo_step2 :: "(pystr \<times> json) list" where
  "demo_step2 =
     [(lit ''sources'',
       JArray [JObject [(lit ''title'', JString (lit ''B'')), (lit ''url'', JString (lit ''u1''))],
               JString (lit ''x''),
               JObject [(lit ''title'', JString (lit ''C''))]])]"

text \<open>The headers of the GET, and the diagnostic of the check of \<open>--max-results\<close>.\<close>

definition releases_headers :: "(pystr \<times> pystr) list" where
  "releases_headers =
     [(lit ''Accept'', lit ''application/vnd.github+json''),
      (lit ''User-Agent'', lit ''codex-skill-search-web'')]"



section \<open>Properties\<close>

subsection \<open>The classifier and the depth-intent detector\<close>

lemma startswith_iff: "startswith s p \<longleftrightarrow> (\<exists>post. s = p @ post)"
  by (induction s p rule: startswith.induct) auto

lemma str_in_iff: "str_in m q \<longleftrightarrow> occurs_in m q"
proof (induction q)
  case Nil
  show ?case by (simp add: occurs_in_def)
next
  case (Cons c cs)
  have "occurs_in m (c # cs) \<longleftrightarrow> (\<exists>post. c # cs = m @ post) \<or> occurs_in m cs"
  proof
    assume "occurs_in m (c # cs)"
    then obtain pre post where eq: "c # cs = pre @ m @ post"
      by (auto simp: occurs_in_def)
    show "(\<exists>post. c # cs = m @ post) \<or> occurs_in m cs"
    proof (cases pre)
      case Nil
      with eq show ?thesis by auto
    next
      case (Cons p ps)
      with eq have "cs = ps @ m @ post" by simp
      then show ?thesis by (auto simp: occurs_in_def)
    qed
  next
    assume "(\<exists>post. c # cs = m @ post) \<or> occurs_in m cs"
    then show "occurs_in m (c # cs)"
    proof
      assume "\<exists>post. c # cs = m @ post"
      then obtain post where "c # cs = [] @ m @ post" by auto
      then show ?thesis unfolding occurs_in_def by blast
    next
      assume "occurs_in m cs"
      then obtain pre post where "cs = pre @ m @ post" by (auto simp: occurs_in_def)
      then have "c # cs = (c # pre) @ m @ post" by simp
      then show ?thesis unfolding occurs_in_def by blast
    qed
  qed
  with Cons show ?case by (simp add: startswith_iff)
qed

lemma list_ex_str_in: "list_ex (\<lambda>m. str_in m q) ks \<longleftrightarrow> (\<exists>k\<in>set ks. occurs_in k q)"
  by (simp add: list_ex_iff str_in_iff)

lemma re_split_ws_nonempty: "re_split_ws s \<noteq> []"
  by (induction s rule: re_split_ws.induct) (auto split: list.splits)

lemma hd_re_split_ws: "hd (re_split_ws s) = takeWhile (\<lambda>x. \<not> isspace x) s"
  by (induction s rule: re_split_ws.induct) (auto simp: re_split_ws_nonempty split: list.splits)

lemma ws_tokens_dropWhile: "ws_tokens (dropWhile isspace s) = ws_tokens s"
  by (subst (1 2) ws_tokens.simps) simp

lemma ws_tokens_Nil: "ws_tokens [] = []"
  by (subst ws_tokens.simps) simp

lemma ws_tokens_space: "isspace c \<Longrightarrow> ws_tokens (c # cs) = ws_tokens (dropWhile isspace cs)"
  using ws_tokens_dropWhile [of "c # cs"] by simp

lemma ws_tokens_nonspace:
  "\<not> isspace c \<Longrightarrow>
   ws_tokens (c # cs) = (c # takeWhile (\<lambda>x. \<not> isspace x) cs) # ws_tokens (dropWhile (\<lambda>x. \<not> isspace x) cs)"
  by (subst ws_tokens.simps) simp

lemma re_split_ws_tokens:
  "filter (\<lambda>w. w \<noteq> []) (re_split_ws s) = ws_tokens s \<and>
   filter (\<lambda>w. w \<noteq> []) (tl (re_split_ws s)) = ws_tokens (dropWhile (\<lambda>x. \<not> isspace x) s)"
proof (induction s rule: re_split_ws.induct)
  case 1
  show ?case by (simp add: ws_tokens_Nil)
next
  case (2 c cs)
  show ?case
  proof (cases "isspace c")
    case True
    with 2 show ?thesis by (simp add: ws_tokens_space)
  next
    case False
    obtain p ps where ps: "re_split_ws cs = p # ps"
      using re_split_ws_nonempty [of cs] by (cases "re_split_ws cs") auto
    have p: "p = takeWhile (\<lambda>x. \<not> isspace x) cs"
      using hd_re_split_ws [of cs] ps by simp
    from 2(2) [OF False] ps have "filter (\<lambda>w. w \<noteq> []) ps = ws_tokens (dropWhile (\<lambda>x. \<not> isspace x) cs)"
      by simp
    with False ps p show ?thesis by (simp add: ws_tokens_nonspace)
  qed
qed

lemma lit_banal_complex: "lit ''banal'' \<noteq> lit ''complex''"
  by (simp add: lit_def)

text \<open>
  Claim C3. For every query the classifier decides in this order: with at most six
  white-space tokens in the trimmed, lower-cased query the answer is \<open>banal\<close>, whatever
  the query contains; otherwise a complexity marker occurring in it gives \<open>complex\<close>;
  otherwise twelve tokens or more give \<open>complex\<close>; otherwise the answer is \<open>banal\<close>.
\<close>

theorem classify_query_order:
  "classify_query L query =
     (let q = str_lower L (strip query); n = length (ws_tokens q)
      in if n \<le> 6 then lit ''banal''
         else if (\<exists>m\<in>set complexity_markers. occurs_in m q) then lit ''complex''
         else if 12 \<le> n then lit ''complex''
         else lit ''banal'')"
  by (simp add: classify_query_def Let_def list_ex_str_in re_split_ws_tokens)

text \<open>
  Claim C5. For every query the depth-intent detector answers \<open>deep\<close> as soon as a
  deep-intent keyword occurs in the lower-cased query, also when a simple-intent keyword
  occurs too; it answers \<open>simple\<close> only when no deep-intent keyword occurs and a
  simple-intent keyword does; it answers nothing when no keyword of either set occurs.
\<close>

theorem explicit_depth_intent_priority:
  "explicit_depth_intent L query =
     (let q = str_lower L query
      in if (\<exists>k\<in>set deep_keywords. occurs_in k q) then Some (lit ''deep'')
         else if (\<exists>k\<in>set simple_keywords. occurs_in k q) then Some (lit ''simple'')
         else None)"
  by (simp add: explicit_depth_intent_def Let_def list_ex_str_in)

subsection \<open>The version range\<close>

lemma py_min_Min: "xs \<noteq> [] \<Longrightarrow> py_min xs = Min (set xs)"
  using Min.set_eq_fold [of "hd xs" "tl xs"] by (cases xs) simp_all

lemma py_max_Max: "xs \<noteq> [] \<Longrightarrow> py_max xs = Max (set xs)"
  using Max.set_eq_fold [of "hd xs" "tl xs"] by (cases xs) simp_all

lemma match_version_at_iff:
  "match_version_at L s = Some (m, rest) \<longleftrightarrow>
     (\<exists>a b r. s = 48 # 46 # a # b # r \<and> two_digits L a b = Some m \<and> rest = skip_patch L r)"
  by (auto simp: match_version_at_def split: list.splits option.splits)

lemma two_digits_Some_iff:
  "(\<exists>m. two_digits L a b = Some m) \<longleftrightarrow> is_digit L a \<and> is_digit L b"
  by (auto simp: two_digits_def is_digit_def split: option.splits)

lemma skip_patch_suffix: "\<exists>pre. r = pre @ skip_patch L r"
proof -
  have dw: "\<exists>pre. xs = pre @ dropWhile P xs" for P and xs :: pystr
    by (metis takeWhile_dropWhile_id)
  show ?thesis
  proof (cases "\<exists>d rest. r = 46 # d # rest \<and> is_digit L d")
    case True
    then obtain d rest where r: "r = 46 # d # rest" "is_digit L d" by auto
    obtain pre where "rest = pre @ dropWhile (is_digit L) rest"
      using dw by blast
    then have "r = (46 # d # pre) @ dropWhile (is_digit L) rest"
      using r by simp
    moreover have "skip_patch L r = dropWhile (is_digit L) rest"
      using r by (simp add: skip_patch_def)
    ultimately show ?thesis by metis
  next
    case False
    then have "skip_patch L r = r"
      by (auto simp: skip_patch_def split: list.splits)
    then show ?thesis by (metis append_Nil)
  qed
qed

lemma finditer_minors_sound:
  "m \<in> set (finditer_minors L q) \<Longrightarrow>
   \<exists>pre a b post. q = pre @ [48, 46, a, b] @ post \<and> two_digits L a b = Some m"
proof (induction L q rule: finditer_minors.induct)
  case (1 L)
  then show ?case by (simp add: finditer_minors.simps)
next
  case (2 L c cs)
  show ?case
  proof (cases "match_version_at L (c # cs)")
    case None
    with 2 obtain pre a b post where "cs = pre @ [48, 46, a, b] @ post" "two_digits L a b = Some m"
      by (auto simp: finditer_minors.simps)
    then have "c # cs = (c # pre) @ [48, 46, a, b] @ post \<and> two_digits L a b = Some m"
      by simp
    then show ?thesis by blast
  next
    case (Some mr)
    obtain m' rest where mr: "mr = (m', rest)" by (cases mr)
    with Some obtain a b r where s: "c # cs = 48 # 46 # a # b # r" "two_digits L a b = Some m'"
      "rest = skip_patch L r"
      by (auto simp: match_version_at_iff)
    from "2.prems" Some mr have "m = m' \<or> m \<in> set (finditer_minors L rest)"
      by (simp add: finditer_minors.simps)
    then show ?thesis
    proof
      assume "m = m'"
      with s have "c # cs = [] @ [48, 46, a, b] @ r \<and> two_digits L a b = Some m" by simp
      then show ?thesis by blast
    next
      assume "m \<in> set (finditer_minors L rest)"
      with "2.IH"(2) [OF Some mr [symmetric]] obtain pre a' b' post
        where rest: "rest = pre @ [48, 46, a', b'] @ post" "two_digits L a' b' = Some m"
        by blast
      obtain pre0 where "r = pre0 @ rest"
        using skip_patch_suffix [of r L] s(3) by auto
      then have "r = pre0 @ pre @ [48, 46, a', b'] @ post"
        using rest(1) by simp
      then have "c # cs = (48 # 46 # a # b # pre0 @ pre) @ [48, 46, a', b'] @ post"
        using s(1) by simp
      with rest(2) show ?thesis by blast
    qed
  qed
qed

lemma finditer_minors_complete:
  "q = pre @ [48, 46, a, b] @ post \<Longrightarrow> is_digit L a \<Longrightarrow> is_digit L b \<Longrightarrow>
   finditer_minors L q \<noteq> []"
proof (induction L q arbitrary: pre rule: finditer_minors.induct)
  case (1 L)
  then show ?case by simp
next
  case (2 L c cs)
  show ?case
  proof (cases "match_version_at L (c # cs)")
    case (Some mr)
    then show ?thesis by (cases mr) (simp add: finditer_minors.simps)
  next
    case None
    have "pre \<noteq> []"
    proof
      assume "pre = []"
      with "2.prems"(1) have s: "c # cs = 48 # 46 # a # b # post" by simp
      obtain m where "two_digits L a b = Some m"
        using two_digits_Some_iff [of L a b] "2.prems"(2,3) by blast
      with s have "match_version_at L (c # cs) = Some (m, skip_patch L post)"
        by (simp add: match_version_at_iff)
      with None show False by simp
    qed
    then obtain p ps where "pre = p # ps" by (cases pre) auto
    with "2.prems"(1) have "cs = ps @ [48, 46, a, b] @ post" by simp
    from "2.IH"(1) [OF None this "2.prems"(2,3)] None show ?thesis
      by (simp add: finditer_minors.simps)
  qed
qed

lemma finditer_minors_empty_iff:
  "finditer_minors L q = [] \<longleftrightarrow>
   \<not> (\<exists>pre a b post. q = pre @ [48, 46, a, b] @ post \<and> is_digit L a \<and> is_digit L b)"
proof
  assume e: "finditer_minors L q = []"
  show "\<not> (\<exists>pre a b post. q = pre @ [48, 46, a, b] @ post \<and> is_digit L a \<and> is_digit L b)"
    using finditer_minors_complete [of q _ _ _ _ L] e by blast
next
  assume n: "\<not> (\<exists>pre a b post. q = pre @ [48, 46, a, b] @ post \<and> is_digit L a \<and> is_digit L b)"
  show "finditer_minors L q = []"
  proof (rule ccontr)
    assume "finditer_minors L q \<noteq> []"
    then obtain m where "m \<in> set (finditer_minors L q)"
      by (cases "finditer_minors L q") auto
    from finditer_minors_sound [OF this] obtain pre a b post
      where "q = pre @ [48, 46, a, b] @ post" "two_digits L a b = Some m"
      by blast
    moreover from this have "is_digit L a \<and> is_digit L b"
      using two_digits_Some_iff [of L a b] by blast
    ultimately show False using n by blast
  qed
qed

lemma range_example_80_87: "\<forall>c<128. digit_value L c = ascii_digit c \<Longrightarrow> extract_codex_cli_range L (lit ''0.80-0.87 cli codex'') = Some (80, 87)"
  by (simp add: extract_codex_cli_range_def lit_def finditer_minors.simps match_version_at_def
      two_digits_def skip_patch_def is_digit_def ascii_digit_def)

lemma range_example_87: "\<forall>c<128. digit_value L c = ascii_digit c \<Longrightarrow> extract_codex_cli_range L (lit ''codex cli 0.87'') = Some (87, 87)"
  by (simp add: extract_codex_cli_range_def lit_def finditer_minors.simps match_version_at_def
      two_digits_def skip_patch_def is_digit_def ascii_digit_def)

lemma range_example_none: "\<forall>c<128. digit_value L c = ascii_digit c \<Longrightarrow> extract_codex_cli_range L (lit ''no numbers here'') = None"
  by (simp add: extract_codex_cli_range_def lit_def finditer_minors.simps match_version_at_def
      two_digits_def skip_patch_def is_digit_def ascii_digit_def)

subsection \<open>The bullets of a release body\<close>

lemma startswith_Nil: "startswith [] p \<longleftrightarrow> p = []"
  by (cases p) auto

lemma bullets_loop_take:
  "int (length acc) < limit \<Longrightarrow>
   bullets_loop limit lines acc =
     acc @ take (nat (limit - int (length acc))) (List.map_filter bullet_item lines)"
proof (induction lines arbitrary: acc)
  case Nil
  show ?case by (simp add: map_filter_simps)
next
  case (Cons line rest)
  show ?case
  proof (cases "bullet_item line")
    case None
    then have "bullets_loop limit (line # rest) acc = bullets_loop limit rest acc"
      by (auto simp: bullet_item_def Let_def startswith_Nil lit_def split: if_splits)
    with Cons None show ?thesis by (simp add: map_filter_simps)
  next
    case (Some item)
    then have it: "strip line \<noteq> []"
      "startswith (strip line) (lit ''-'') \<or> startswith (strip line) (lit ''*'')"
      "strip (lstrip_chars (lit ''-*'') (strip line)) = item" "item \<noteq> []"
      by (auto simp: bullet_item_def Let_def startswith_Nil lit_def split: if_splits)
    show ?thesis
    proof (cases "int (length (acc @ [item])) \<ge> limit")
      case True
      with Cons.prems have "nat (limit - int (length acc)) = 1" by simp
      moreover from True it have "bullets_loop limit (line # rest) acc = acc @ [item]"
        by (simp add: Let_def)
      ultimately show ?thesis using Some by (simp add: map_filter_simps)
    next
      case False
      then have lt: "int (length (acc @ [item])) < limit" by simp
      from False it have "bullets_loop limit (line # rest) acc = bullets_loop limit rest (acc @ [item])"
        by (simp add: Let_def)
      also have "\<dots> = (acc @ [item]) @ take (nat (limit - int (length (acc @ [item]))))
          (List.map_filter bullet_item rest)"
        by (rule Cons.IH [OF lt])
      also have "\<dots> = acc @ take (nat (limit - int (length acc))) (item # List.map_filter bullet_item rest)"
      proof -
        from lt obtain k where k: "nat (limit - int (length acc)) = Suc k"
          "nat (limit - int (length (acc @ [item]))) = k"
          by (cases "nat (limit - int (length acc))") (auto simp: nat_diff_distrib)
        then show ?thesis by simp
      qed
      finally show ?thesis using Some by (simp add: map_filter_simps)
    qed
  qed
qed

lemma summarize_bullets_take:
  "summarize_bullets_from_markdown body 8 = take 8 (bullet_items body)"
  using bullets_loop_take [of "[]" 8 "splitlines body"]
  by (simp add: summarize_bullets_from_markdown_def bullet_items_def)

lemma release_lines_no_bullets:
  assumes "bullet_items (strip (py_str L (get_or r (lit ''body'') (JString [])))) = []"
  shows "release_lines L minor r =
     [lit ''0.'' @ fmt_02d minor @ lit ''.0 (''
        @ (let d = takeWhile (\<lambda>c. c \<noteq> 84) (py_str L (get_or r (lit ''published_at'') (JString [])))
           in if d \<noteq> [] then d else [8212]) @ lit ''):'',
      no_details_line,
      lit ''  '' @ [377] @ lit ''r'' @ [243] @ lit ''d'' @ [322] @ lit ''o: '' @ release_url L minor r,
      []]"
  using assms by (simp add: release_lines_def Let_def summarize_bullets_take)

lemma splitlines_from_newline: "splitlines_from cur (10 # rest) = cur # splitlines_from [] rest"
  by (cases rest) (simp_all add: is_linebreak_def)

lemma splitlines_rules: "splitlines_from [] (concat (replicate n (lit ''---'' @ [10]))) = replicate n (lit ''---'')"
  by (induction n) (simp_all add: lit_def is_linebreak_def splitlines_from_newline)

lemma strip_rule: "strip (lit ''---'') = lit ''---''"
  by (simp add: lit_def strip_def lstrip_def rstrip_def isspace_def)

lemma rule_has_no_item: "strip (lstrip_chars (lit ''-*'') (lit ''---'')) = []"
  by (simp add: lit_def strip_def lstrip_def rstrip_def isspace_def lstrip_chars_def)

lemma bullets_loop_rules: "bullets_loop limit (replicate n (lit ''---'')) acc = acc"
proof (induction n)
  case 0
  show ?case by simp
next
  case (Suc n)
  have "lit ''---'' \<noteq> []" by (simp add: lit_def)
  with Suc show ?case by (simp add: strip_rule rule_has_no_item Let_def)
qed

lemma rules_are_not_bullets:
  "length (filter (\<lambda>l. startswith l (lit ''-'') \<or> startswith l (lit ''*''))
             (splitlines (concat (replicate 15 (lit ''---'' @ [10]))))) = 15 \<and>
   summarize_bullets_from_markdown (concat (replicate 15 (lit ''---'' @ [10]))) 8 = []"
proof -
  have "startswith (lit ''---'') (lit ''-'')"
    by (simp add: lit_def)
  then show ?thesis
    by (simp add: splitlines_def splitlines_rules summarize_bullets_from_markdown_def bullets_loop_rules)
qed

subsection \<open>The minors with no release\<close>

lemma fetched_minor_Nil: "\<not> fetched_minor L [] m"
  by (simp add: fetched_minor_def)

lemma fetched_minor_Cons:
  "fetched_minor L (r # rs) m \<longleftrightarrow>
     (case r of
        JObject d \<Rightarrow> match_release_tag L (py_str L (get_or d (lit ''tag_name'') (JString []))) = Some m
      | _ \<Rightarrow> False) \<or> fetched_minor L rs m"
  by (auto simp: fetched_minor_def split: json.splits)

lemma collect_releases_keys:
  "fst ` set (collect_releases L lo hi items acc) =
     fst ` set acc \<union> {m. lo \<le> m \<and> m \<le> hi \<and> fetched_minor L items m}"
proof (induction items arbitrary: acc)
  case Nil
  show ?case by (simp add: fetched_minor_Nil)
next
  case (Cons r rs)
  show ?case
  proof (cases r)
    case (JObject d)
    show ?thesis
    proof (cases "match_release_tag L (py_str L (get_or d (lit ''tag_name'') (JString [])))")
      case None
      with JObject Cons.IH [of acc] show ?thesis by (simp add: fetched_minor_Cons)
    next
      case (Some minor)
      show ?thesis
      proof (cases "lo \<le> minor \<and> minor \<le> hi")
        case True
        with JObject Some Cons.IH [of "AList.update minor d acc"] show ?thesis
          by (auto simp: fetched_minor_Cons dom_update)
      next
        case False
        with JObject Some Cons.IH [of acc] show ?thesis by (auto simp: fetched_minor_Cons)
      qed
    qed
  qed (use Cons.IH [of acc] in \<open>simp_all add: fetched_minor_Cons\<close>)
qed










lemma has_version_finditer: "has_version L q \<longleftrightarrow> finditer_minors L q \<noteq> []"
  using finditer_minors_empty_iff [of L q] by (auto simp: has_version_def)

lemma skip_patch_is_patch:
  "\<exists>patch. r = patch @ skip_patch L r \<and> is_patch L patch (skip_patch L r)"
proof (cases "\<exists>d r'. r = 46 # d # r' \<and> is_digit L d")
  case True
  then obtain d r' where r: "r = 46 # d # r'" and d: "is_digit L d" by blast
  let ?ds = "d # takeWhile (is_digit L) r'"
  have sp: "skip_patch L r = dropWhile (is_digit L) r'"
    using r d by (simp add: skip_patch_def)
  have "r = (46 # ?ds) @ dropWhile (is_digit L) r'"
    using r by simp
  moreover have "list_all (is_digit L) ?ds"
    using d by (auto simp: list_all_iff dest: set_takeWhileD)
  moreover have "\<not> (\<exists>x xs. dropWhile (is_digit L) r' = x # xs \<and> is_digit L x)"
    using hd_dropWhile [of "is_digit L" r'] by (auto simp: dropWhile_eq_Cons_conv)
  ultimately have "r = (46 # ?ds) @ skip_patch L r \<and> is_patch L (46 # ?ds) (skip_patch L r)"
    unfolding sp is_patch_def by blast
  then show ?thesis by blast
next
  case False
  then have "skip_patch L r = r"
    by (auto simp: skip_patch_def split: list.splits)
  with False have "r = [] @ skip_patch L r \<and> is_patch L [] (skip_patch L r)"
    by (simp add: is_patch_def)
  then show ?thesis by blast
qed

lemma is_patch_skip: "is_patch L patch rest \<Longrightarrow> skip_patch L (patch @ rest) = rest"
  unfolding is_patch_def
proof (elim disjE conjE exE)
  assume "patch = []" and n: "\<not> (\<exists>d r. rest = 46 # d # r \<and> is_digit L d)"
  then show ?thesis
    by (auto simp: skip_patch_def split: list.splits)
next
  fix ds
  assume p: "patch = 46 # ds" and ne: "ds \<noteq> []" and all: "list_all (is_digit L) ds"
    and n: "\<not> (\<exists>d r. rest = d # r \<and> is_digit L d)"
  from ne obtain d ds' where ds: "ds = d # ds'" by (cases ds) auto
  from n have dr: "dropWhile (is_digit L) rest = rest"
    by (cases rest) auto
  have "dropWhile (is_digit L) (ds' @ rest) = dropWhile (is_digit L) rest"
    using all ds by (intro dropWhile_append2) (auto simp: list_all_iff)
  with dr all ds p show ?thesis
    by (simp add: skip_patch_def)
qed

lemma match_None_iff:
  "match_version_at L q = None \<longleftrightarrow>
     \<not> (\<exists>a b r. q = 48 # 46 # a # b # r \<and> is_digit L a \<and> is_digit L b)"
  by (auto simp: match_version_at_def two_digits_def is_digit_def split: list.splits option.splits)

lemma has_version_Cons:
  "has_version L (c # cs) \<longleftrightarrow>
     (\<exists>a b r. c # cs = 48 # 46 # a # b # r \<and> is_digit L a \<and> is_digit L b) \<or> has_version L cs"
proof
  assume "has_version L (c # cs)"
  then obtain pre a b post where q: "c # cs = pre @ [48, 46, a, b] @ post"
    and d: "is_digit L a" "is_digit L b"
    by (auto simp: has_version_def)
  show "(\<exists>a b r. c # cs = 48 # 46 # a # b # r \<and> is_digit L a \<and> is_digit L b) \<or> has_version L cs"
  proof (cases pre)
    case Nil
    with q have "c # cs = 48 # 46 # a # b # post" by simp
    with d show ?thesis by blast
  next
    case (Cons p ps)
    with q have "cs = ps @ [48, 46, a, b] @ post" by simp
    with d show ?thesis unfolding has_version_def by blast
  qed
next
  assume "(\<exists>a b r. c # cs = 48 # 46 # a # b # r \<and> is_digit L a \<and> is_digit L b) \<or> has_version L cs"
  then show "has_version L (c # cs)"
  proof
    assume "\<exists>a b r. c # cs = 48 # 46 # a # b # r \<and> is_digit L a \<and> is_digit L b"
    then obtain a b r where "c # cs = [] @ [48, 46, a, b] @ r" "is_digit L a" "is_digit L b"
      by auto
    then show ?thesis unfolding has_version_def by blast
  next
    assume "has_version L cs"
    then obtain pre a b post where "cs = pre @ [48, 46, a, b] @ post" "is_digit L a" "is_digit L b"
      by (auto simp: has_version_def)
    then have "c # cs = (c # pre) @ [48, 46, a, b] @ post \<and> is_digit L a \<and> is_digit L b"
      by simp
    then show ?thesis unfolding has_version_def by blast
  qed
qed

lemma has_version_short: "length s < 4 \<Longrightarrow> \<not> has_version L s"
  by (auto simp: has_version_def)

lemma has_version_prefix: "has_version L s \<Longrightarrow> has_version L (s @ t)"
proof -
  assume "has_version L s"
  then obtain pre a b post where "s = pre @ [48, 46, a, b] @ post" "is_digit L a" "is_digit L b"
    by (auto simp: has_version_def)
  then have "s @ t = pre @ [48, 46, a, b] @ (post @ t) \<and> is_digit L a \<and> is_digit L b"
    by simp
  then show ?thesis unfolding has_version_def by blast
qed

lemma version_matches_Cons:
  assumes "version_matches L cs ms" and "match_version_at L (c # cs) = None"
  shows "version_matches L (c # cs) ms"
  using assms(1)
proof (cases rule: version_matches.cases)
  case vm_none
  with assms(2) have "\<not> has_version L (c # cs)"
    by (simp add: has_version_Cons match_None_iff)
  with vm_none show ?thesis by (simp add: version_matches.vm_none)
next
  case (vm_match pre a b patch rest m ms')
  have "\<not> has_version L (c # pre @ [48, 46, a])"
  proof
    assume "has_version L (c # pre @ [48, 46, a])"
    with vm_match(3) obtain a' b' r where e: "c # pre @ [48, 46, a] = 48 # 46 # a' # b' # r"
      and d: "is_digit L a'" "is_digit L b'"
      unfolding has_version_Cons [of L c] by blast
    have "c # cs = (c # pre @ [48, 46, a]) @ b # patch @ rest"
      using vm_match(2) by simp
    also have "\<dots> = 48 # 46 # a' # b' # (r @ b # patch @ rest)"
      unfolding e by simp
    finally have "\<exists>a b r. c # cs = 48 # 46 # a # b # r \<and> is_digit L a \<and> is_digit L b"
      using d by blast
    then have "match_version_at L (c # cs) \<noteq> None"
      unfolding match_None_iff by blast
    with assms(2) show False by blast
  qed
  then have nv: "\<not> has_version L ((c # pre) @ [48, 46, a])" by simp
  have eq: "c # cs = (c # pre) @ [48, 46, a, b] @ patch @ rest"
    using vm_match(2) by simp
  show ?thesis
    unfolding vm_match(1)
    by (rule version_matches.vm_match [OF eq nv vm_match(4) vm_match(5) vm_match(6)])
qed

lemma version_matches_finditer: "version_matches L q (finditer_minors L q)"
proof (induction L q rule: finditer_minors.induct)
  case (1 L)
  have "\<not> has_version L []" by (simp add: has_version_short)
  then show ?case by (simp add: finditer_minors.simps version_matches.vm_none)
next
  case (2 L c cs)
  show ?case
  proof (cases "match_version_at L (c # cs)")
    case None
    with "2.IH"(1) show ?thesis
      by (simp add: finditer_minors.simps version_matches_Cons)
  next
    case (Some mr)
    obtain m rest where mr: "mr = (m, rest)" by (cases mr)
    with Some obtain a b r where q: "c # cs = 48 # 46 # a # b # r" and m: "two_digits L a b = Some m"
      and rest: "rest = skip_patch L r"
      by (auto simp: match_version_at_iff)
    obtain patch where p: "r = patch @ rest" "is_patch L patch rest"
      using skip_patch_is_patch [of r L] rest by blast
    have eq: "c # cs = [] @ [48, 46, a, b] @ patch @ rest"
      using q p(1) by simp
    have nv: "\<not> has_version L ([] @ [48, 46, a])"
      by (simp add: has_version_short)
    have ih: "version_matches L rest (finditer_minors L rest)"
      by (rule "2.IH"(2) [OF Some mr [symmetric]])
    have "version_matches L (c # cs) (m # finditer_minors L rest)"
      by (rule version_matches.vm_match [OF eq nv m p(2) ih])
    with Some mr show ?thesis by (simp add: finditer_minors.simps)
  qed
qed

lemma finditer_minors_first:
  "\<not> has_version L (pre @ [48, 46, a]) \<Longrightarrow> two_digits L a b = Some m \<Longrightarrow>
   is_patch L patch rest \<Longrightarrow>
   finditer_minors L (pre @ [48, 46, a, b] @ patch @ rest) = m # finditer_minors L rest"
proof (induction pre)
  case Nil
  have "match_version_at L (48 # 46 # a # b # patch @ rest) = Some (m, skip_patch L (patch @ rest))"
    using Nil(2) by (simp add: match_version_at_iff)
  with Nil(3) show ?case
    by (simp add: finditer_minors.simps is_patch_skip)
next
  case (Cons p ps)
  have nv: "\<not> has_version L (ps @ [48, 46, a])"
    and nh: "\<not> (\<exists>a' b' r. p # ps @ [48, 46, a] = 48 # 46 # a' # b' # r \<and> is_digit L a' \<and> is_digit L b')"
    using Cons.prems(1) by (simp_all add: has_version_Cons)
  have "\<not> (\<exists>a' b' r. p # ps @ [48, 46, a, b] @ patch @ rest = 48 # 46 # a' # b' # r \<and>
            is_digit L a' \<and> is_digit L b')"
  proof
    assume "\<exists>a' b' r. p # ps @ [48, 46, a, b] @ patch @ rest = 48 # 46 # a' # b' # r \<and>
            is_digit L a' \<and> is_digit L b'"
    then obtain a' b' r where e: "p # ps @ [48, 46, a, b] @ patch @ rest = 48 # 46 # a' # b' # r"
      and d: "is_digit L a'" "is_digit L b'"
      by blast
    have "take 4 (p # ps @ [48, 46, a, b] @ patch @ rest) = take 4 (p # ps @ [48, 46, a])"
      by (cases ps; cases "tl ps"; cases "tl (tl ps)") auto
    with e have "take 4 (p # ps @ [48, 46, a]) = [48, 46, a', b']"
      by simp
    then have "p # ps @ [48, 46, a] = [48, 46, a', b'] @ drop 4 (p # ps @ [48, 46, a])"
      by (metis append_take_drop_id)
    then have "p # ps @ [48, 46, a] = 48 # 46 # a' # b' # drop 4 (p # ps @ [48, 46, a])"
      by simp
    with d nh show False by blast
  qed
  then have "match_version_at L (p # ps @ [48, 46, a, b] @ patch @ rest) = None"
    unfolding match_None_iff .
  with Cons.IH [OF nv Cons.prems(2,3)] show ?case
    by (simp add: finditer_minors.simps)
qed

lemma version_matches_unique: "version_matches L q ms \<Longrightarrow> ms = finditer_minors L q"
proof (induction rule: version_matches.induct)
  case (vm_none L q)
  then show ?case by (simp add: has_version_finditer)
next
  case (vm_match q pre a b patch rest L m ms)
  from finditer_minors_first [OF vm_match(2,3,4)] vm_match(1,6) show ?case
    by simp
qed

lemma version_matches_iff: "version_matches L q ms \<longleftrightarrow> ms = finditer_minors L q"
  using version_matches_unique version_matches_finditer by blast

lemma extract_codex_cli_range_eq:
  "extract_codex_cli_range L query =
     (if finditer_minors L query = [] then None
      else Some (Min (set (finditer_minors L query)), Max (set (finditer_minors L query))))"
  by (simp add: extract_codex_cli_range_def Let_def py_min_Min py_max_Max)

lemma extract_codex_cli_range_le:
  assumes "extract_codex_cli_range L query = Some (lo, hi)"
  shows "lo \<le> hi"
proof -
  let ?ms = "finditer_minors L query"
  from assms have ne: "?ms \<noteq> []" and lo: "lo = Min (set ?ms)" and hi: "hi = Max (set ?ms)"
    by (auto simp: extract_codex_cli_range_eq split: if_splits)
  from ne have "Min (set ?ms) \<le> Max (set ?ms)"
    by (simp add: Min_le_iff)
  with lo hi show ?thesis by simp
qed

lemma extract_ends_occur:
  assumes "extract_codex_cli_range L query = Some (lo, hi)"
  shows "lo \<in> substring_minors L query \<and> hi \<in> substring_minors L query"
proof -
  let ?ms = "finditer_minors L query"
  from assms have ne: "?ms \<noteq> []" and lo: "lo = Min (set ?ms)" and hi: "hi = Max (set ?ms)"
    by (auto simp: extract_codex_cli_range_eq split: if_splits)
  from ne have "Min (set ?ms) \<in> set ?ms" "Max (set ?ms) \<in> set ?ms"
    by (simp_all add: Min_in Max_in)
  with lo hi finditer_minors_sound [of lo L query] finditer_minors_sound [of hi L query]
  show ?thesis
    by (simp add: substring_minors_def)
qed

text \<open>
  Claim C4, amended. The query is scanned from left to right for the matches of \<open>0.NN\<close>
  followed, when there is one, by a patch (a dot and all the digits after it): a match
  starts at the first \<open>0.NN\<close> at or after the end of the match before it, so a \<open>0.NN\<close>
  that lies in what an earlier match covers is not counted. These matches exist and are
  unique for every query, and the extraction returns the least and the greatest of their
  minors, or no range when there is none; there is no range exactly when the query has
  no substring \<open>0.NN\<close> with two digits; a range that is returned has its lower end at
  most its upper end, and both ends are minors of substrings \<open>0.NN\<close> of the query; and
  with the ASCII digits read as usual, \<open>0.80-0.87 cli codex\<close> gives (80, 87),
  \<open>codex cli 0.87\<close> gives (87, 87) and \<open>no numbers here\<close> gives no range.
\<close>

theorem extract_codex_cli_range_spec:
  "(\<exists>ms. version_matches L query ms) \<and>
   (\<forall>ms. version_matches L query ms \<longrightarrow>
      extract_codex_cli_range L query =
        (if ms = [] then None else Some (Min (set ms), Max (set ms)))) \<and>
   (extract_codex_cli_range L query = None \<longleftrightarrow> \<not> has_version L query) \<and>
   (\<forall>lo hi. extract_codex_cli_range L query = Some (lo, hi) \<longrightarrow>
      lo \<le> hi \<and> lo \<in> substring_minors L query \<and> hi \<in> substring_minors L query) \<and>
   ((\<forall>c<128. digit_value L c = ascii_digit c) \<longrightarrow>
      extract_codex_cli_range L (lit ''0.80-0.87 cli codex'') = Some (80, 87) \<and>
      extract_codex_cli_range L (lit ''codex cli 0.87'') = Some (87, 87) \<and>
      extract_codex_cli_range L (lit ''no numbers here'') = None)"
proof -
  have a: "\<exists>ms. version_matches L query ms"
    using version_matches_finditer by blast
  have b: "\<forall>ms. version_matches L query ms \<longrightarrow>
      extract_codex_cli_range L query =
        (if ms = [] then None else Some (Min (set ms), Max (set ms)))"
    using extract_codex_cli_range_eq [of L query] by (auto dest: version_matches_unique)
  have c: "extract_codex_cli_range L query = None \<longleftrightarrow> \<not> has_version L query"
    by (simp add: extract_codex_cli_range_eq has_version_finditer)
  from a b c extract_codex_cli_range_le [of L query] extract_ends_occur [of L query]
    range_example_80_87 [of L] range_example_87 [of L] range_example_none [of L]
  show ?thesis by blast
qed

lemma demo_minors: "finditer_minors ascii_lib (lit ''0.80-0.87 cli codex'') = [80, 87]"
  by (simp add: lit_def finditer_minors.simps match_version_at_def two_digits_def skip_patch_def
      is_digit_def ascii_digit_def ascii_lib_def)

text \<open>
  Claim C4 as amended on the examples, with the ASCII instance of the library: the
  matches of \<open>0.80-0.87 cli codex\<close> are the minors 80 and 87.
\<close>

theorem extract_codex_cli_range_spec_witness:
  "version_matches ascii_lib (lit ''0.80-0.87 cli codex'') [80, 87] \<and>
   extract_codex_cli_range ascii_lib (lit ''0.80-0.87 cli codex'') = Some (80, 87) \<and>
   (80::int) \<le> 87 \<and>
   extract_codex_cli_range ascii_lib (lit ''codex cli 0.87'') = Some (87, 87) \<and>
   extract_codex_cli_range ascii_lib (lit ''no numbers here'') = None"
proof -
  have h: "\<forall>c<128. digit_value ascii_lib c = ascii_digit c"
    by (simp add: ascii_lib_def)
  have vm: "version_matches ascii_lib (lit ''0.80-0.87 cli codex'') [80, 87]"
    using version_matches_finditer [of ascii_lib "lit ''0.80-0.87 cli codex''"]
    by (simp only: demo_minors)
  note t = extract_codex_cli_range_spec [of ascii_lib "lit ''0.80-0.87 cli codex''"]
  from t vm have "extract_codex_cli_range ascii_lib (lit ''0.80-0.87 cli codex'') =
      (if [80, 87] = ([] :: int list) then None else Some (Min (set [80, 87]), Max (set [80, 87])))"
    by blast
  then have e1: "extract_codex_cli_range ascii_lib (lit ''0.80-0.87 cli codex'') = Some (80, 87)"
    by simp
  from t h have e: "extract_codex_cli_range ascii_lib (lit ''codex cli 0.87'') = Some (87, 87)"
    "extract_codex_cli_range ascii_lib (lit ''no numbers here'') = None"
    by blast+
  from t e1 have "(80::int) \<le> 87" by blast
  with vm e1 e show ?thesis by blast
qed

text \<open>
  Claim C4 as it is stated fails: in \<open>0.10.0.55\<close> the substring \<open>0.55\<close> matches \<open>0.NN\<close>
  with the minor 55, but it starts inside the match \<open>0.10.0\<close>, and the range returned
  is (10, 10), whose upper end is not the greatest minor of the matching substrings.
\<close>

theorem extract_all_substrings_counterexample:
  "extract_codex_cli_range ascii_lib (lit ''0.10.0.55'') = Some (10, 10) \<and>
   55 \<in> substring_minors ascii_lib (lit ''0.10.0.55'') \<and> (10::int) < 55"
proof -
  have "finditer_minors ascii_lib (lit ''0.10.0.55'') = [10]"
    by (simp add: lit_def finditer_minors.simps match_version_at_def two_digits_def skip_patch_def
        is_digit_def ascii_digit_def ascii_lib_def)
  then have a: "extract_codex_cli_range ascii_lib (lit ''0.10.0.55'') = Some (10, 10)"
    by (simp add: extract_codex_cli_range_def)
  have "lit ''0.10.0.55'' = lit ''0.10.'' @ [48, 46, 53, 53] @ [] \<and>
      two_digits ascii_lib 53 53 = Some 55"
    by (simp add: lit_def two_digits_def ascii_lib_def ascii_digit_def)
  then have b: "55 \<in> substring_minors ascii_lib (lit ''0.10.0.55'')"
    unfolding substring_minors_def by blast
  from a b show ?thesis by simp
qed

lemma bullet_items_replicate:
  "List.map_filter bullet_item (replicate n (lit ''- a'')) = replicate n (lit ''a'')"
proof -
  have "bullet_item (lit ''- a'') = Some (lit ''a'')"
    by (simp add: bullet_item_def lit_def strip_def lstrip_def rstrip_def isspace_def
        lstrip_chars_def Let_def)
  then show ?thesis by (induction n) (simp_all add: map_filter_simps)
qed

lemma splitlines_replicate:
  "splitlines_from [] (concat (replicate n (lit ''- a'' @ [10]))) = replicate n (lit ''- a'')"
  by (induction n) (simp_all add: lit_def is_linebreak_def splitlines_from_newline)

lemma bullet_items_notes: "bullet_items (strip (lit ''notes'')) = []"
  by (simp add: bullet_items_def bullet_item_def lit_def strip_def lstrip_def rstrip_def isspace_def
      lstrip_chars_def Let_def splitlines_def is_linebreak_def map_filter_simps)

text \<open>
  Claim C8, amended. A bullet line is a line that, once trimmed, starts with \<open>-\<close> or
  \<open>*\<close> and still has text after its leading run of \<open>-\<close> and \<open>*\<close> and the white
  space around it; that text is its item. With the limit 8 the extraction returns the
  items of the first eight bullet lines in their order: exactly eight when the body has
  eight bullet lines or more (fifteen, say), and none when it has no bullet line, in
  which case the report has for that release four lines of which exactly one, the
  second, is the placeholder.
\<close>

theorem summarize_bullets_cap:
  "summarize_bullets_from_markdown body 8 = take 8 (bullet_items body) \<and>
   (8 \<le> length (bullet_items body) \<longrightarrow> length (summarize_bullets_from_markdown body 8) = 8) \<and>
   (bullet_items body = [] \<longrightarrow> summarize_bullets_from_markdown body 8 = []) \<and>
   (bullet_items (strip (py_str L (get_or r (lit ''body'') (JString [])))) = [] \<longrightarrow>
      length (release_lines L minor r) = 4 \<and>
      release_lines L minor r ! 1 = no_details_line \<and>
      count_list (release_lines L minor r) no_details_line = 1)"
proof -
  have "count_list (release_lines L minor r) no_details_line = 1"
    and "length (release_lines L minor r) = 4" and "release_lines L minor r ! 1 = no_details_line"
    if "bullet_items (strip (py_str L (get_or r (lit ''body'') (JString [])))) = []"
    using release_lines_no_bullets [OF that, of minor] by (simp_all add: lit_def no_details_line_def)
  then show ?thesis
    by (simp add: summarize_bullets_take)
qed

text \<open>
  Claim C8 on a body of fifteen bullet lines and on a release whose body has none.
\<close>

theorem summarize_bullets_cap_witness:
  "length (summarize_bullets_from_markdown (concat (replicate 15 (lit ''- a'' @ [10]))) 8) = 8 \<and>
   summarize_bullets_from_markdown (strip (lit ''notes'')) 8 = [] \<and>
   count_list (release_lines ascii_lib 87 [(lit ''body'', JString (lit ''notes''))]) no_details_line = 1"
proof -
  have b15: "bullet_items (concat (replicate 15 (lit ''- a'' @ [10]))) = replicate 15 (lit ''a'')"
    by (simp add: bullet_items_def splitlines_def splitlines_replicate bullet_items_replicate)
  have body: "py_str ascii_lib (get_or [(lit ''body'', JString (lit ''notes''))] (lit ''body'') (JString []))
      = lit ''notes''"
    by (simp add: py_str_def get_or_def lit_def)
  note t1 = summarize_bullets_cap [of "concat (replicate 15 (lit ''- a'' @ [10]))" ascii_lib
      "[(lit ''body'', JString (lit ''notes''))]" 87]
  note t2 = summarize_bullets_cap [of "strip (lit ''notes'')" ascii_lib
      "[(lit ''body'', JString (lit ''notes''))]" 87]
  from t1 b15 have "length (summarize_bullets_from_markdown (concat (replicate 15 (lit ''- a'' @ [10]))) 8) = 8"
    by simp
  moreover from t2 bullet_items_notes have "summarize_bullets_from_markdown (strip (lit ''notes'')) 8 = []"
    by blast
  moreover from t1 body bullet_items_notes
  have "count_list (release_lines ascii_lib 87 [(lit ''body'', JString (lit ''notes''))]) no_details_line = 1"
    by simp
  ultimately show ?thesis by blast
qed

text \<open>
  Claim C8 as it is stated fails: a body of fifteen lines that each start with \<open>-\<close>,
  the horizontal rules \<open>---\<close> of markdown, has no extracted bullet at all.
\<close>

theorem summarize_bullets_claim_counterexample:
  "length (filter (\<lambda>l. startswith l (lit ''-'') \<or> startswith l (lit ''*''))
             (splitlines (concat (replicate 15 (lit ''---'' @ [10]))))) = 15 \<and>
   length (summarize_bullets_from_markdown (concat (replicate 15 (lit ''---'' @ [10]))) 8) \<noteq> 8"
  using rules_are_not_bullets by simp



subsection \<open>The structured plan\<close>

lemma brace_depth_snoc:
  "brace_depth (xs @ [c]) = brace_depth xs + (if c = 123 then 1 else if c = 125 then - 1 else 0)"
  by (simp add: brace_depth_def)

lemma balanced_end_step:
  "k \<le> length s \<Longrightarrow>
   balanced_end s k = (if brace_depth (take k s) = 0 then Some k else balanced_end s (Suc k))"
  by (simp add: balanced_end_def upt_conv_Cons del: upt_Suc)

lemma balanced_end_beyond: "length s < k \<Longrightarrow> balanced_end s k = None"
  by (simp add: balanced_end_def)

lemma brace_loop_balanced_end:
  assumes "start \<le> i" "i \<le> length src"
    and "depth = brace_depth (take (i - start) (drop start src))" and "1 \<le> depth"
  shows "brace_loop L src start i depth =
     (case balanced_end (drop start src) (Suc (i - start)) of
        None \<Rightarrow> None
      | Some n \<Rightarrow> parse_object L (take n (drop start src)))"
  using assms
proof (induction L src start i depth rule: brace_loop.induct)
  case (1 L src start i depth)
  let ?s = "drop start src"
  let ?k = "i - start"
  show ?case
  proof (cases "i < length src")
    case False
    with "1.prems" have "i = length src" by simp
    then have "balanced_end ?s (Suc ?k) = None"
      by (intro balanced_end_beyond) simp
    with False show ?thesis
      by (subst brace_loop.simps) simp
  next
    case True
    with "1.prems" have k: "?k < length ?s" by simp
    have c: "?s ! ?k = src ! i"
      using "1.prems" True by simp
    have tk: "take (Suc ?k) ?s = take ?k ?s @ [src ! i]"
      using take_Suc_conv_app_nth [OF k] c by simp
    have d': "brace_depth (take (Suc ?k) ?s) =
        depth + (if src ! i = 123 then 1 else if src ! i = 125 then - 1 else 0)"
      using "1.prems"(3) by (simp only: tk brace_depth_snoc)
    have step: "balanced_end ?s (Suc ?k) =
        (if brace_depth (take (Suc ?k) ?s) = 0 then Some (Suc ?k) else balanced_end ?s (Suc (Suc ?k)))"
      using k by (intro balanced_end_step) simp
    have suc: "i + 1 - start = Suc ?k" "i + 1 \<le> length src" "start \<le> i + 1"
      using "1.prems"(1) True by simp_all
    consider (lbrace) "src ! i = 123" | (rbrace) "src ! i = 125" | (plain) "src ! i \<noteq> 123" "src ! i \<noteq> 125"
      by blast
    then show ?thesis
    proof cases
      case lbrace
      have nd: "depth + 1 = brace_depth (take (i + 1 - start) ?s)" "1 \<le> depth + 1"
        using d' lbrace "1.prems"(4) suc(1) by simp_all
      have "brace_loop L src start (i + 1) (depth + 1) =
          (case balanced_end ?s (Suc (i + 1 - start)) of
             None \<Rightarrow> None | Some n \<Rightarrow> parse_object L (take n ?s))"
        by (rule "1.IH"(1) [OF True refl lbrace suc(3) suc(2) nd])
      moreover have "brace_depth (take (Suc ?k) ?s) \<noteq> 0"
        using d' lbrace "1.prems"(4) by simp
      moreover have "brace_loop L src start i depth = brace_loop L src start (i + 1) (depth + 1)"
        using True lbrace by (subst brace_loop.simps) (simp add: Let_def)
      ultimately show ?thesis
        by (simp only: step suc(1) if_False)
    next
      case rbrace
      show ?thesis
      proof (cases "depth - 1 = 0")
        case z: True
        then have "brace_depth (take (Suc ?k) ?s) = 0"
          using d' rbrace by simp
        moreover have "brace_loop L src start i depth = parse_object L (take (i + 1 - start) ?s)"
          using True rbrace z by (subst brace_loop.simps) (simp add: Let_def parse_object_def)
        ultimately show ?thesis
          using suc(1) by (simp add: step)
      next
        case nz: False
        have nd: "depth - 1 = brace_depth (take (i + 1 - start) ?s)" "1 \<le> depth - 1"
          using d' rbrace "1.prems"(4) suc(1) nz by simp_all
        have ne: "src ! i \<noteq> 123" using rbrace by simp
        have "brace_loop L src start (i + 1) (depth - 1) =
          (case balanced_end ?s (Suc (i + 1 - start)) of
             None \<Rightarrow> None | Some n \<Rightarrow> parse_object L (take n ?s))"
          by (rule "1.IH"(2) [OF True refl ne rbrace nz suc(3) suc(2) nd])
        moreover have "brace_depth (take (Suc ?k) ?s) \<noteq> 0"
          using d' rbrace nz by simp
        moreover have "brace_loop L src start i depth = brace_loop L src start (i + 1) (depth - 1)"
          using True rbrace nz by (subst brace_loop.simps) (simp add: Let_def)
        ultimately show ?thesis
          by (simp only: step suc(1) if_False)
      qed
    next
      case plain
      have nd: "depth = brace_depth (take (i + 1 - start) ?s)"
        using d' plain suc(1) by simp
      have "brace_loop L src start (i + 1) depth =
          (case balanced_end ?s (Suc (i + 1 - start)) of
             None \<Rightarrow> None | Some n \<Rightarrow> parse_object L (take n ?s))"
        by (rule "1.IH"(3) [OF True refl plain suc(3) suc(2) nd "1.prems"(4)])
      moreover have "brace_depth (take (Suc ?k) ?s) \<noteq> 0"
        using d' plain "1.prems"(4) by simp
      moreover have "brace_loop L src start i depth = brace_loop L src start (i + 1) depth"
        using True plain by (subst brace_loop.simps) (simp add: Let_def)
      ultimately show ?thesis
        by (simp only: step suc(1) if_False)
    qed
  qed
qed

lemma length_takeWhile_neq: "x \<in> set xs \<Longrightarrow> length (takeWhile (\<lambda>c. c \<noteq> x) xs) < length xs"
  by (induction xs) auto

lemma extract_first_json_object_balanced:
  "extract_first_json_object L content =
     (case first_balanced content of
        None \<Rightarrow> None
      | Some chunk \<Rightarrow> parse_object L chunk)"
proof (cases "123 \<in> set content")
  case False
  then have "dropWhile (\<lambda>c. c \<noteq> 123) content = []"
    by (auto simp: dropWhile_eq_Nil_conv)
  then have "first_balanced content = None"
    unfolding first_balanced_def Let_def by (simp only: balanced_end_beyond list.size(3) zero_less_one option.map)
  with False show ?thesis
    by (simp add: extract_first_json_object_def find_brace_def)
next
  case True
  define n0 where "n0 = length (takeWhile (\<lambda>c. c \<noteq> 123) content)"
  define s where "s = drop n0 content"
  have s_eq: "dropWhile (\<lambda>c. c \<noteq> 123) content = s"
    by (simp add: s_def n0_def dropWhile_eq_drop)
  have lt: "n0 < length content"
    using True unfolding n0_def by (rule length_takeWhile_neq)
  have at: "content ! n0 = 123"
    using nth_length_takeWhile [of "\<lambda>c. c \<noteq> 123" content] lt unfolding n0_def by simp
  have s1: "take (Suc 0) s = [123]"
    using lt at by (simp add: s_def take_Suc_conv_app_nth)
  have d1: "brace_depth (take (Suc 0) s) = 1"
    unfolding s1 by (simp add: brace_depth_def)
  have len: "1 \<le> length s"
    using lt by (simp add: s_def)
  have "brace_loop L content n0 n0 0 = brace_loop L content n0 (n0 + 1) 1"
    using lt at by (subst brace_loop.simps) (simp add: Let_def)
  also have "\<dots> = (case balanced_end s (Suc (n0 + 1 - n0)) of
        None \<Rightarrow> None | Some n \<Rightarrow> parse_object L (take n s))"
    unfolding s_def
    by (rule brace_loop_balanced_end) (use lt d1 in \<open>simp_all add: s_def\<close>)
  also have "balanced_end s (Suc (n0 + 1 - n0)) = balanced_end s 1"
    using balanced_end_step [OF len] d1 by simp
  finally have loop: "brace_loop L content n0 n0 0 =
      (case balanced_end s 1 of None \<Rightarrow> None | Some n \<Rightarrow> parse_object L (take n s))" .
  have "extract_first_json_object L content = brace_loop L content n0 n0 0"
    using True by (simp add: extract_first_json_object_def find_brace_def n0_def)
  with loop show ?thesis
    by (simp add: first_balanced_def s_eq split: option.splits)
qed

lemma plan_keys_distinct:
  "lit ''tldr_bullets'' \<noteq> lit ''sources''" "lit ''tldr_bullets'' \<noteq> lit ''followup_queries''"
  "lit ''sources'' \<noteq> lit ''followup_queries''"
  by (simp_all add: lit_def)

lemma map_of_setdefault:
  "map_of (setdefault d k v) k' =
     (if k' = k then (case map_of d k of None \<Rightarrow> Some v | Some x \<Rightarrow> Some x) else map_of d k')"
proof (cases "k \<in> fst ` set d")
  case True
  then obtain x where "map_of d k = Some x"
    by (metis domD dom_map_of_conv_image_fst)
  with True show ?thesis by (simp add: setdefault_def)
next
  case False
  then have "map_of d k = None"
    by (simp add: map_of_eq_None_iff)
  with False show ?thesis
    by (auto simp: setdefault_def map_add_def split: option.splits)
qed

lemma plan_of_content_lookup:
  "map_of (plan_of_content L content) k =
     (let obj = (case extract_first_json_object L content of None \<Rightarrow> [] | Some d \<Rightarrow> d)
      in if k \<in> set plan_keys
         then Some (case map_of obj k of None \<Rightarrow> JArray [] | Some v \<Rightarrow> v)
         else map_of obj k)"
  using plan_keys_distinct
  by (auto simp: plan_of_content_def Let_def map_of_setdefault plan_keys_def
      split: option.splits)

lemma plan_of_content_failed:
  "extract_first_json_object L content = None \<Longrightarrow> plan_of_content L content = empty_plan"
  using plan_keys_distinct
  by (simp add: plan_of_content_def setdefault_def empty_plan_def)

lemma json_plan_returns:
  "request L W api_key
     \<lparr>p_model = model, p_plugins = Some max_results, p_prompt = PlanPrompt query lang\<rparr> t = (Inr data, t') \<Longrightarrow>
   choices_content L data = Some content \<Longrightarrow>
   openrouter_web_search_json_plan L W api_key model query lang max_results t =
     (Inr (plan_of_content L content), t')"
  by (simp add: openrouter_web_search_json_plan_def bind_io_def return_io_def)

lemma first_balanced_Some:
  assumes "first_balanced content = Some chunk"
  shows "\<exists>pre post. content = pre @ chunk @ post \<and> 123 \<notin> set pre \<and> chunk \<noteq> [] \<and>
           brace_depth chunk = 0 \<and>
           (\<forall>m. 0 < m \<and> m < length chunk \<longrightarrow> brace_depth (take m chunk) \<noteq> 0)"
proof -
  define s where "s = dropWhile (\<lambda>c. c \<noteq> 123) content"
  let ?P = "\<lambda>n. brace_depth (take n s) = 0"
  let ?ns = "[1..<Suc (length s)]"
  from assms obtain n where n: "List.find ?P ?ns = Some n" and chunk: "chunk = take n s"
    by (auto simp: first_balanced_def Let_def s_def [symmetric] balanced_end_def)
  from n obtain i where i: "i < length ?ns" "?P (?ns ! i)" "n = ?ns ! i" "\<forall>j<i. \<not> ?P (?ns ! j)"
    unfolding find_Some_iff by blast
  have len: "length ?ns = length s" by (simp del: upt_Suc)
  have nth: "?ns ! j = Suc j" if "j < length s" for j
    using that nth_upt [of 1 j "Suc (length s)"] by (simp del: upt_Suc)
  have n_eq: "n = Suc i" and i_lt: "i < length s"
    using i(1,3) nth [of i] len by (simp_all del: upt_Suc)
  have zero: "brace_depth (take n s) = 0"
    using i(2,3) by (simp del: upt_Suc)
  have minimal: "brace_depth (take m s) \<noteq> 0" if "0 < m" "m < n" for m
  proof -
    from that obtain j where j: "m = Suc j" by (cases m) auto
    with that n_eq have "j < i" by simp
    with i(4) have "\<not> ?P (?ns ! j)" by blast
    moreover have "?ns ! j = m"
      using nth [of j] \<open>j < i\<close> i_lt j by simp
    ultimately show ?thesis by (simp del: upt_Suc)
  qed
  have "content = takeWhile (\<lambda>c. c \<noteq> 123) content @ chunk @ drop n s"
    by (simp add: chunk s_def)
  moreover have "123 \<notin> set (takeWhile (\<lambda>c. c \<noteq> 123) content)"
    by (auto dest: set_takeWhileD)
  moreover have "chunk \<noteq> []"
    using chunk n_eq i_lt by auto
  moreover have "brace_depth chunk = 0"
    using zero chunk by simp
  moreover have "\<forall>m. 0 < m \<and> m < length chunk \<longrightarrow> brace_depth (take m chunk) \<noteq> 0"
  proof (intro allI impI)
    fix m
    assume m: "0 < m \<and> m < length chunk"
    then have "m < n" by (simp add: chunk)
    moreover have "take m chunk = take m s"
      using m by (auto simp: chunk min_def split: if_splits)
    ultimately show "brace_depth (take m chunk) \<noteq> 0"
      using minimal [of m] m by simp
  qed
  ultimately show ?thesis by blast
qed

text \<open>
  Claim C1. For every reply text the end of the structured single-pass plan returns:
  the object it parses is the first balanced brace-delimited chunk, that is the
  shortest non-empty prefix, of the text from its first \<open>{\<close> on, in which the opening and
  the closing braces are as many, wherever it stands in the surrounding prose; when
  there is no such chunk, or \<open>json.loads\<close> raises on it, or it is not an object, the
  plan is the object of the three keys with empty lists; in every case each of
  \<open>tldr_bullets\<close>, \<open>sources\<close> and \<open>followup_queries\<close> is present in the plan, with the
  value of the parsed object when it has the key and the empty list otherwise; and once
  the request has returned a reply with a content, the plan is returned with no
  exception.
\<close>

theorem plan_of_content_total:
  "extract_first_json_object L content =
     (case first_balanced content of
        None \<Rightarrow> None
      | Some chunk \<Rightarrow> parse_object L chunk) \<and>
   (\<forall>chunk. first_balanced content = Some chunk \<longrightarrow>
      (\<exists>pre post. content = pre @ chunk @ post \<and> 123 \<notin> set pre \<and> chunk \<noteq> [] \<and>
         brace_depth chunk = 0 \<and>
         (\<forall>m. 0 < m \<and> m < length chunk \<longrightarrow> brace_depth (take m chunk) \<noteq> 0))) \<and>
   (extract_first_json_object L content = None \<longrightarrow> plan_of_content L content = empty_plan) \<and>
   (\<forall>k\<in>set plan_keys.
      map_of (plan_of_content L content) k =
        Some (case map_of (case extract_first_json_object L content of None \<Rightarrow> [] | Some d \<Rightarrow> d) k of
                None \<Rightarrow> JArray []
              | Some v \<Rightarrow> v)) \<and>
   (\<forall>data t t'.
      request L W api_key
        \<lparr>p_model = model, p_plugins = Some max_results, p_prompt = PlanPrompt query lang\<rparr> t
        = (Inr data, t') \<and>
      choices_content L data = Some content \<longrightarrow>
      openrouter_web_search_json_plan L W api_key model query lang max_results t =
        (Inr (plan_of_content L content), t'))"
proof -
  have keys: "\<forall>k\<in>set plan_keys.
      map_of (plan_of_content L content) k =
        Some (case map_of (case extract_first_json_object L content of None \<Rightarrow> [] | Some d \<Rightarrow> d) k of
                None \<Rightarrow> JArray []
              | Some v \<Rightarrow> v)"
    by (simp add: plan_of_content_lookup Let_def)
  show ?thesis
    using extract_first_json_object_balanced [of L content] first_balanced_Some [of content]
      plan_of_content_failed [of L content] keys json_plan_returns [of L W api_key model max_results query lang]
    by blast
qed

lemma demo_extract:
  "extract_first_json_object ascii_lib (lit ''Here: {} done'') = Some []"
  by (simp add: extract_first_json_object_def find_brace_def brace_loop.simps lit_def ascii_lib_def
      Let_def)

lemma demo_extract_none:
  "extract_first_json_object ascii_lib (lit ''no json'') = None"
  by (simp add: extract_first_json_object_def find_brace_def lit_def)

lemma demo_choices: "choices_content ascii_lib demo_reply = Some (lit ''Here: {} done'')"
  by (simp add: choices_content_def demo_reply_def py_str_def lit_def)

lemma demo_loads: "json_loads ascii_lib demo_reply_raw = Inr demo_reply"
  by (simp add: ascii_lib_def demo_reply_raw_def lit_def)

lemma demo_request:
  "request ascii_lib (demo_world key) k pl t = (Inr demo_reply, t @ [HttpPost k pl])"
  by (simp add: request_def demo_world_def demo_loads Let_def)

text \<open>
  Claim C1 on a reply with no brace, and on the reply \<open>Here: {} done\<close> of a chat
  completion.
\<close>

theorem plan_of_content_total_witness:
  "plan_of_content ascii_lib (lit ''no json'') = empty_plan \<and>
   map_of (plan_of_content ascii_lib (lit ''Here: {} done'')) (lit ''sources'') = Some (JArray []) \<and>
   openrouter_web_search_json_plan ascii_lib (demo_world (Some (lit ''key''))) (lit ''key'')
       (lit ''m'') (lit ''q'') (lit ''pl'') 5 []
     = (Inr (plan_of_content ascii_lib (lit ''Here: {} done'')),
        [HttpPost (lit ''key'')
           \<lparr>p_model = lit ''m'', p_plugins = Some 5, p_prompt = PlanPrompt (lit ''q'') (lit ''pl'')\<rparr>])"
proof -
  note t1 = plan_of_content_total [of ascii_lib "lit ''no json''"]
  note t2 = plan_of_content_total [of ascii_lib "lit ''Here: {} done''" "demo_world (Some (lit ''key''))"
      "lit ''key''" "lit ''m''" 5 "lit ''q''" "lit ''pl''"]
  have k: "lit ''sources'' \<in> set plan_keys"
    by (simp add: plan_keys_def)
  from t1 demo_extract_none have a: "plan_of_content ascii_lib (lit ''no json'') = empty_plan"
    by blast
  from t2 k have "map_of (plan_of_content ascii_lib (lit ''Here: {} done'')) (lit ''sources'') =
      Some (case map_of (case extract_first_json_object ascii_lib (lit ''Here: {} done'') of
                           None \<Rightarrow> [] | Some d \<Rightarrow> d) (lit ''sources'') of
              None \<Rightarrow> JArray [] | Some v \<Rightarrow> v)"
    by blast
  then have b: "map_of (plan_of_content ascii_lib (lit ''Here: {} done'')) (lit ''sources'') = Some (JArray [])"
    by (simp add: demo_extract)
  from t2 demo_request [of "Some (lit ''key'')" "lit ''key''" _ "[]"] demo_choices
  have c: "openrouter_web_search_json_plan ascii_lib (demo_world (Some (lit ''key''))) (lit ''key'')
       (lit ''m'') (lit ''q'') (lit ''pl'') 5 []
     = (Inr (plan_of_content ascii_lib (lit ''Here: {} done'')),
        [] @ [HttpPost (lit ''key'')
           \<lparr>p_model = lit ''m'', p_plugins = Some 5, p_prompt = PlanPrompt (lit ''q'') (lit ''pl'')\<rparr>])"
    by blast
  from a b c show ?thesis by simp
qed

subsection \<open>The merge of the sources\<close>

lemma first_by_url_filter:
  "first_by_url (filter (\<lambda>x. url x \<notin> A) xs) = filter (\<lambda>x. url x \<notin> A) (first_by_url xs)"
proof (induction xs rule: first_by_url.induct)
  case 1
  show ?case by simp
next
  case (2 s ss)
  have comm: "filter (\<lambda>x. url x \<noteq> url s) (filter (\<lambda>x. url x \<notin> A) ss) =
      filter (\<lambda>x. url x \<notin> A) (filter (\<lambda>x. url x \<noteq> url s) ss)"
    by (simp add: conj_commute)
  show ?case
  proof (cases "url s \<in> A")
    case True
    have "filter (\<lambda>x. url x \<notin> A) (filter (\<lambda>x. url x \<noteq> url s) ss) = filter (\<lambda>x. url x \<notin> A) ss"
      using True by (auto intro: filter_cong)
    with True "2.IH" show ?thesis by simp
  next
    case False
    with "2.IH" comm show ?thesis by simp
  qed
qed

lemma set_first_by_url: "url ` set (first_by_url xs) = url ` set xs"
proof (induction xs rule: first_by_url.induct)
  case 1
  show ?case by simp
next
  case (2 s ss)
  then show ?case by auto
qed

lemma first_by_url_subset: "set (first_by_url xs) \<subseteq> set xs"
  by (induction xs rule: first_by_url.induct) auto

lemma distinct_first_by_url: "distinct (map url (first_by_url xs))"
proof (induction xs rule: first_by_url.induct)
  case 1
  show ?case by simp
next
  case (2 s ss)
  have "url s \<notin> url ` set (first_by_url (filter (\<lambda>x. url x \<noteq> url s) ss))"
    unfolding set_first_by_url by auto
  with 2 show ?case by simp
qed

lemma first_by_url_append:
  "first_by_url (xs @ ys) =
     first_by_url xs @ first_by_url (filter (\<lambda>y. url y \<notin> url ` set xs) ys)"
proof (induction xs arbitrary: ys rule: first_by_url.induct)
  case 1
  show ?case by simp
next
  case (2 s ss)
  let ?f = "filter (\<lambda>x. url x \<noteq> url s)"
  have "filter (\<lambda>y. url y \<notin> url ` set (?f ss)) (?f ys) =
      filter (\<lambda>y. url y \<notin> url ` set (s # ss)) ys"
    by (auto intro!: filter_cong simp: conj_commute)
  with "2.IH" [of "?f ys"] show ?case by simp
qed

lemma add_sources_spec:
  "add_sources L items (sources, seen) =
     (sources @ first_by_url (filter (\<lambda>x. url x \<notin> seen) (List.map_filter (source_of_item L) items)),
      seen \<union> url ` set (filter (\<lambda>x. url x \<notin> seen) (List.map_filter (source_of_item L) items)))"
proof (induction items arbitrary: sources seen)
  case Nil
  show ?case by (simp add: map_filter_simps)
next
  case (Cons s ss)
  show ?case
  proof (cases "source_of_item L s")
    case None
    then have "add_sources L (s # ss) (sources, seen) = add_sources L ss (sources, seen)"
      by (auto simp: source_of_item_def Let_def split: json.splits if_splits)
    with None Cons.IH show ?thesis by (simp add: map_filter_simps)
  next
    case (Some x)
    then obtain d where d: "s = JObject d"
      and u: "url x = strip (py_str L (get_or d (lit ''url'') (JString [])))" "url x \<noteq> []"
      and x: "x = \<lparr>title = (if strip (py_str L (get_or d (lit ''title'') (JString []))) \<noteq> []
                         then strip (py_str L (get_or d (lit ''title'') (JString []))) else url x),
                url = url x\<rparr>"
      by (auto simp: source_of_item_def Let_def split: json.splits if_splits)
    show ?thesis
    proof (cases "url x \<in> seen")
      case True
      then have "add_sources L (s # ss) (sources, seen) = add_sources L ss (sources, seen)"
        using d u by (simp add: Let_def)
      with True Some Cons.IH show ?thesis by (simp add: map_filter_simps)
    next
      case False
      have "add_sources L (s # ss) (sources, seen) =
          add_sources L ss (sources @ [x], insert (url x) seen)"
        using d u False by (subst x) (simp add: Let_def)
      also have "\<dots> = ((sources @ [x]) @ first_by_url (filter (\<lambda>y. url y \<notin> insert (url x) seen)
                              (List.map_filter (source_of_item L) ss)),
            insert (url x) seen \<union> url ` set (filter (\<lambda>y. url y \<notin> insert (url x) seen)
                              (List.map_filter (source_of_item L) ss)))"
        by (rule Cons.IH)
      also have "filter (\<lambda>y. url y \<notin> insert (url x) seen) (List.map_filter (source_of_item L) ss) =
          filter (\<lambda>y. url y \<noteq> url x) (filter (\<lambda>y. url y \<notin> seen) (List.map_filter (source_of_item L) ss))"
        by (auto intro: filter_cong)
      finally show ?thesis
        using False Some by (auto simp: map_filter_simps)
    qed
  qed
qed

lemma step_candidates_url: "x \<in> set (step_candidates L step) \<Longrightarrow> url x \<noteq> []"
  by (auto simp: step_candidates_def map_filter_def source_of_item_def Let_def
      split: json.splits if_splits)

lemma merge_sources_spec:
  "list_all iterable steps \<Longrightarrow>
   merge_sources L steps (sources, seen) =
     Inr (sources @ first_by_url (filter (\<lambda>x. url x \<notin> seen) (concat (map (step_candidates L) steps))),
          seen \<union> url ` set (filter (\<lambda>x. url x \<notin> seen) (concat (map (step_candidates L) steps))))"
proof (induction steps arbitrary: sources seen)
  case Nil
  show ?case by simp
next
  case (Cons step steps)
  from Cons.prems have "iterable step" and rest: "list_all iterable steps"
    by simp_all
  then obtain items where it: "iter_json (get_or step (lit ''sources'') (JArray [])) = Inr items"
    unfolding iterable_def by blast
  have c: "step_candidates L step = List.map_filter (source_of_item L) items"
    by (simp add: step_candidates_def step_items_def it)
  let ?c1 = "filter (\<lambda>x. url x \<notin> seen) (step_candidates L step)"
  let ?cr = "concat (map (step_candidates L) steps)"
  let ?seen1 = "seen \<union> url ` set ?c1"
  have "merge_sources L (step # steps) (sources, seen) =
      merge_sources L steps (sources @ first_by_url ?c1, ?seen1)"
    by (simp add: it add_sources_spec c)
  also have "\<dots> = Inr ((sources @ first_by_url ?c1) @ first_by_url (filter (\<lambda>x. url x \<notin> ?seen1) ?cr),
        ?seen1 \<union> url ` set (filter (\<lambda>x. url x \<notin> ?seen1) ?cr))"
    by (rule Cons.IH [OF rest])
  also have "filter (\<lambda>x. url x \<notin> ?seen1) ?cr =
      filter (\<lambda>y. url y \<notin> url ` set ?c1) (filter (\<lambda>x. url x \<notin> seen) ?cr)"
    by (auto intro: filter_cong)
  finally show ?case
    by (auto simp: first_by_url_append)
qed

lemma merge_sources_fails:
  "\<not> list_all iterable steps \<Longrightarrow> merge_sources L steps st = Inl TypeError"
proof (induction steps arbitrary: st)
  case Nil
  then show ?case by simp
next
  case (Cons step steps)
  show ?case
  proof (cases "iter_json (get_or step (lit ''sources'') (JArray []))")
    case (Inl e)
    then have "e = TypeError"
      by (cases "get_or step (lit ''sources'') (JArray [])") auto
    with Inl show ?thesis by simp
  next
    case (Inr items)
    then have "iterable step" by (simp add: iterable_def)
    with Cons.prems have "\<not> list_all iterable steps" by simp
    from Cons.IH [OF this] Inr show ?thesis by simp
  qed
qed

lemma numbered_source_lines_take:
  "numbered_source_lines sources = numbered_source_lines (take 12 sources) \<and>
   length (numbered_source_lines sources) = min 12 (length sources)"
  by (simp add: numbered_source_lines_def min.commute)

lemma request_trace:
  "\<exists>r rest. request L W k pl t = (r, t @ HttpPost k pl # rest)"
  by (auto simp: request_def Let_def die_def split: http_result.splits sum.splits exn.splits)

lemma deep_search_3x_prompt:
  assumes "openrouter_web_search_json_plan L W k model query lang n t = (Inr step1, t1)"
    and "followup_query L (get_or step1 (lit ''followup_queries'') (JArray [])) 0
           (query @ lit '' szczeg'' @ [243, 322] @ lit ''y'') = Inr q2"
    and "followup_query L (get_or step1 (lit ''followup_queries'') (JArray [])) 1
           (query @ lit '' kontekst i '' @ [378] @ lit ''r'' @ [243] @ lit ''d'' @ [322] @ lit ''a'') = Inr q3"
    and "openrouter_web_search_json_plan L W k model q2 lang n t1 = (Inr step2, t2)"
    and "openrouter_web_search_json_plan L W k model q3 lang n t2 = (Inr step3, t3)"
    and "merge_sources L [step1, step2, step3] ([], {}) = Inr (sources, seen)"
  shows "\<exists>r rest. deep_search_3x L W k model query lang n t =
           (r, t3 @ HttpPost k
                 \<lparr>p_model = model, p_plugins = None,
                  p_prompt = SynthesisPrompt query lang (JObject step1) (JObject step2) (JObject step3)
                    (join [10] (numbered_source_lines (take 12 sources)))\<rparr> # rest)"
proof -
  let ?pl = "\<lparr>p_model = model, p_plugins = None,
                  p_prompt = SynthesisPrompt query lang (JObject step1) (JObject step2) (JObject step3)
                    (join [10] (numbered_source_lines (take 12 sources)))\<rparr>"
  obtain r0 rest0 where rq: "request L W k ?pl t3 = (r0, t3 @ HttpPost k ?pl # rest0)"
    using request_trace by blast
  have ns: "numbered_source_lines sources = numbered_source_lines (take 12 sources)"
    using numbered_source_lines_take by blast
  have "deep_search_3x L W k model query lang n t =
      bind_io (request L W k ?pl)
        (\<lambda>data. case choices_content L data of
                   Some content \<Rightarrow> return_io (rstrip content @ [10])
                 | None \<Rightarrow> die (schema_error L data) 2) t3"
    using assms
    by (simp add: deep_search_3x_def bind_io_def lift_exn_def return_io_def Let_def ns [symmetric])
  then show ?thesis
    using rq
    by (cases r0) (auto simp: bind_io_def return_io_def die_def split: option.splits)
qed

text \<open>
  Claim C2. In the deep search, when the \<open>sources\<close> of the three steps can be iterated,
  the merged list is the candidates of step 1, then of step 2, then of step 3, each in
  its own order, with only the first entry of every url kept; so no two of its entries
  have the same url and every entry has a non-empty url (a candidate is a dict item with
  a non-empty trimmed url). When the \<open>sources\<close> of a step is a number or a boolean the
  merge raises \<open>TypeError\<close> and there is no list. The numbered lines are those of the
  first twelve entries, and they are what the payload of the synthesis request holds.
\<close>

theorem merged_sources_spec:
  "(iterable step1 \<and> iterable step2 \<and> iterable step3 \<longrightarrow>
      (\<exists>sources.
         merge_sources L [step1, step2, step3] ([], {}) = Inr (sources, url ` set sources) \<and>
         sources = first_by_url
           (step_candidates L step1 @ step_candidates L step2 @ step_candidates L step3) \<and>
         distinct (map url sources) \<and> (\<forall>s\<in>set sources. url s \<noteq> []))) \<and>
   (\<not> (iterable step1 \<and> iterable step2 \<and> iterable step3) \<longrightarrow>
      merge_sources L [step1, step2, step3] ([], {}) = Inl TypeError) \<and>
   numbered_source_lines srcs = numbered_source_lines (take 12 srcs) \<and>
   length (numbered_source_lines srcs) = min 12 (length srcs) \<and>
   (\<forall>t t1 t2 t3 q2 q3 sources seen.
      openrouter_web_search_json_plan L W k model query lang n t = (Inr step1, t1) \<and>
      followup_query L (get_or step1 (lit ''followup_queries'') (JArray [])) 0
        (query @ lit '' szczeg'' @ [243, 322] @ lit ''y'') = Inr q2 \<and>
      followup_query L (get_or step1 (lit ''followup_queries'') (JArray [])) 1
        (query @ lit '' kontekst i '' @ [378] @ lit ''r'' @ [243] @ lit ''d'' @ [322] @ lit ''a'') = Inr q3 \<and>
      openrouter_web_search_json_plan L W k model q2 lang n t1 = (Inr step2, t2) \<and>
      openrouter_web_search_json_plan L W k model q3 lang n t2 = (Inr step3, t3) \<and>
      merge_sources L [step1, step2, step3] ([], {}) = Inr (sources, seen) \<longrightarrow>
      (\<exists>r rest. deep_search_3x L W k model query lang n t =
         (r, t3 @ HttpPost k
               \<lparr>p_model = model, p_plugins = None,
                p_prompt = SynthesisPrompt query lang (JObject step1) (JObject step2) (JObject step3)
                  (join [10] (numbered_source_lines (take 12 sources)))\<rparr> # rest)))"
proof -
  let ?c = "step_candidates L step1 @ step_candidates L step2 @ step_candidates L step3"
  have a: "\<exists>sources.
         merge_sources L [step1, step2, step3] ([], {}) = Inr (sources, url ` set sources) \<and>
         sources = first_by_url ?c \<and>
         distinct (map url sources) \<and> (\<forall>s\<in>set sources. url s \<noteq> [])"
    if it: "iterable step1 \<and> iterable step2 \<and> iterable step3"
  proof -
    from it have "list_all iterable [step1, step2, step3]" by simp
    from merge_sources_spec [OF this, of L "[]" "{}"]
    have m: "merge_sources L [step1, step2, step3] ([], {}) = Inr (first_by_url ?c, url ` set ?c)"
      by simp
    have "url ` set ?c = url ` set (first_by_url ?c)"
      by (simp only: set_first_by_url)
    moreover have "url s \<noteq> []" if "s \<in> set (first_by_url ?c)" for s
    proof -
      from that first_by_url_subset [of ?c] have "s \<in> set ?c" by blast
      then show ?thesis by (auto dest: step_candidates_url)
    qed
    ultimately show ?thesis
      using m distinct_first_by_url [of ?c] by auto
  qed
  have b: "merge_sources L [step1, step2, step3] ([], {}) = Inl TypeError"
    if "\<not> (iterable step1 \<and> iterable step2 \<and> iterable step3)"
    using that by (intro merge_sources_fails) simp
  from a b numbered_source_lines_take [of srcs] deep_search_3x_prompt [of L W k model query lang n]
  show ?thesis
    by blast
qed

lemma demo_strip:
  "strip (lit ''u1'') = lit ''u1''" "strip (lit '' u2 '') = lit ''u2''" "strip (lit ''A'') = lit ''A''"
  "strip (lit ''B'') = lit ''B''" "strip (lit ''C'') = lit ''C''" "strip [] = []"
  by (simp_all add: strip_def lstrip_def rstrip_def isspace_def lit_def)

lemma demo_keys: "lit ''url'' \<noteq> lit ''title''" "lit ''title'' \<noteq> lit ''url''"
  "lit ''u1'' \<noteq> []" "lit ''u2'' \<noteq> []" "lit ''A'' \<noteq> []" "lit ''B'' \<noteq> []"
  "lit ''C'' \<noteq> []" "lit ''u1'' \<noteq> lit ''u2''" "lit ''u2'' \<noteq> lit ''u1''" "lit '' u2 '' \<noteq> []"
  by (simp_all add: lit_def)

lemma demo_candidates1:
  "step_candidates ascii_lib demo_step1 =
     [\<lparr>title = lit ''A'', url = lit ''u1''\<rparr>, \<lparr>title = lit ''u2'', url = lit ''u2''\<rparr>]"
  by (simp add: step_candidates_def step_items_def demo_step1_def get_or_def map_filter_simps
      source_of_item_def py_str_def demo_strip demo_keys Let_def)

lemma demo_candidates2:
  "step_candidates ascii_lib demo_step2 = [\<lparr>title = lit ''B'', url = lit ''u1''\<rparr>]"
  by (simp add: step_candidates_def step_items_def demo_step2_def get_or_def map_filter_simps
      source_of_item_def py_str_def demo_strip demo_keys Let_def)

lemma demo_candidates3: "step_candidates ascii_lib [] = []"
  by (simp add: step_candidates_def step_items_def get_or_def map_filter_simps)

lemma demo_iterable: "iterable demo_step1" "iterable demo_step2" "iterable []"
  "\<not> iterable [(lit ''sources'', JInt 5)]"
  by (simp_all add: iterable_def demo_step1_def demo_step2_def get_or_def)

lemma demo_plan: "plan_of_content ascii_lib (lit ''Here: {} done'') = empty_plan"
  using plan_keys_distinct
  by (simp add: plan_of_content_def demo_extract setdefault_def empty_plan_def)

lemma demo_json_plan:
  "openrouter_web_search_json_plan ascii_lib (demo_world key) k model q lang n t =
     (Inr empty_plan,
      t @ [HttpPost k \<lparr>p_model = model, p_plugins = Some n, p_prompt = PlanPrompt q lang\<rparr>])"
  by (simp add: openrouter_web_search_json_plan_def bind_io_def demo_request demo_choices
      return_io_def demo_plan)

lemma demo_followups:
  "followup_query ascii_lib (get_or empty_plan (lit ''followup_queries'') (JArray [])) i fb = Inr fb"
  using plan_keys_distinct
  by (simp add: followup_query_def get_or_def empty_plan_def)

lemma demo_merge_empty: "merge_sources ascii_lib [empty_plan, empty_plan, empty_plan] ([], {}) = Inr ([], {})"
  using plan_keys_distinct
  by (simp add: get_or_def empty_plan_def)

text \<open>
  Claim C2 on two steps that share the url \<open>u1\<close>, on a step whose sources is 5, on
  fifteen sources, and on a deep search whose every reply is \<open>Here: {} done\<close>.
\<close>

theorem merged_sources_spec_witness:
  "merge_sources ascii_lib [demo_step1, demo_step2, []] ([], {}) =
     Inr ([\<lparr>title = lit ''A'', url = lit ''u1''\<rparr>, \<lparr>title = lit ''u2'', url = lit ''u2''\<rparr>],
          {lit ''u1'', lit ''u2''}) \<and>
   merge_sources ascii_lib [[(lit ''sources'', JInt 5)], demo_step2, []] ([], {}) = Inl TypeError \<and>
   length (numbered_source_lines (replicate 15 \<lparr>title = lit ''A'', url = lit ''u1''\<rparr>)) = 12 \<and>
   (\<exists>r rest.
      deep_search_3x ascii_lib (demo_world (Some (lit ''key''))) (lit ''key'') (lit ''m'') (lit ''q'')
        (lit ''pl'') 5 [] =
      (r, [HttpPost (lit ''key'')
             \<lparr>p_model = lit ''m'', p_plugins = Some 5, p_prompt = PlanPrompt (lit ''q'') (lit ''pl'')\<rparr>,
           HttpPost (lit ''key'')
             \<lparr>p_model = lit ''m'', p_plugins = Some 5,
              p_prompt = PlanPrompt (lit ''q'' @ lit '' szczeg'' @ [243, 322] @ lit ''y'') (lit ''pl'')\<rparr>,
           HttpPost (lit ''key'')
             \<lparr>p_model = lit ''m'', p_plugins = Some 5,
              p_prompt = PlanPrompt
                (lit ''q'' @ lit '' kontekst i '' @ [378] @ lit ''r'' @ [243] @ lit ''d'' @ [322] @ lit ''a'')
                (lit ''pl'')\<rparr>,
           HttpPost (lit ''key'')
             \<lparr>p_model = lit ''m'', p_plugins = None,
              p_prompt = SynthesisPrompt (lit ''q'') (lit ''pl'') (JObject empty_plan) (JObject empty_plan)
                (JObject empty_plan) []\<rparr>] @ rest))"
proof -
  note t1 = merged_sources_spec [of demo_step1 demo_step2 "[]" ascii_lib
      "replicate 15 \<lparr>title = lit ''A'', url = lit ''u1''\<rparr>"]
  note t2 = merged_sources_spec [of "[(lit ''sources'', JInt 5)]" demo_step2 "[]" ascii_lib]
  note t3 = merged_sources_spec [of empty_plan empty_plan empty_plan ascii_lib _
      "demo_world (Some (lit ''key''))" "lit ''key''" "lit ''m''" "lit ''q''" "lit ''pl''" 5]
  from t1 demo_iterable obtain sources where
    m: "merge_sources ascii_lib [demo_step1, demo_step2, []] ([], {}) = Inr (sources, url ` set sources)"
    and s: "sources = first_by_url (step_candidates ascii_lib demo_step1
        @ step_candidates ascii_lib demo_step2 @ step_candidates ascii_lib [])"
    by blast
  from s have "sources = [\<lparr>title = lit ''A'', url = lit ''u1''\<rparr>, \<lparr>title = lit ''u2'', url = lit ''u2''\<rparr>]"
    by (simp add: demo_candidates1 demo_candidates2 demo_candidates3 demo_keys)
  with m have a: "merge_sources ascii_lib [demo_step1, demo_step2, []] ([], {}) =
     Inr ([\<lparr>title = lit ''A'', url = lit ''u1''\<rparr>, \<lparr>title = lit ''u2'', url = lit ''u2''\<rparr>],
          {lit ''u1'', lit ''u2''})"
    by simp
  from t2 demo_iterable
  have b: "merge_sources ascii_lib [[(lit ''sources'', JInt 5)], demo_step2, []] ([], {}) = Inl TypeError"
    by blast
  from t1 have "length (numbered_source_lines (replicate 15 \<lparr>title = lit ''A'', url = lit ''u1''\<rparr>)) =
      min 12 (length (replicate 15 \<lparr>title = lit ''A'', url = lit ''u1''\<rparr>))"
    by blast
  then have c: "length (numbered_source_lines (replicate 15 \<lparr>title = lit ''A'', url = lit ''u1''\<rparr>)) = 12"
    by simp
  let ?p1 = "HttpPost (lit ''key'')
             \<lparr>p_model = lit ''m'', p_plugins = Some 5, p_prompt = PlanPrompt (lit ''q'') (lit ''pl'')\<rparr>"
  let ?q2 = "lit ''q'' @ lit '' szczeg'' @ [243, 322] @ lit ''y''"
  let ?q3 = "lit ''q'' @ lit '' kontekst i '' @ [378] @ lit ''r'' @ [243] @ lit ''d'' @ [322] @ lit ''a''"
  let ?p2 = "HttpPost (lit ''key'')
             \<lparr>p_model = lit ''m'', p_plugins = Some 5, p_prompt = PlanPrompt ?q2 (lit ''pl'')\<rparr>"
  let ?p3 = "HttpPost (lit ''key'')
             \<lparr>p_model = lit ''m'', p_plugins = Some 5, p_prompt = PlanPrompt ?q3 (lit ''pl'')\<rparr>"
  have h1: "openrouter_web_search_json_plan ascii_lib (demo_world (Some (lit ''key''))) (lit ''key'')
      (lit ''m'') (lit ''q'') (lit ''pl'') 5 [] = (Inr empty_plan, [?p1])"
    by (simp add: demo_json_plan)
  have h2: "openrouter_web_search_json_plan ascii_lib (demo_world (Some (lit ''key''))) (lit ''key'')
      (lit ''m'') ?q2 (lit ''pl'') 5 [?p1] = (Inr empty_plan, [?p1, ?p2])"
    by (simp add: demo_json_plan)
  have h3: "openrouter_web_search_json_plan ascii_lib (demo_world (Some (lit ''key''))) (lit ''key'')
      (lit ''m'') ?q3 (lit ''pl'') 5 [?p1, ?p2] = (Inr empty_plan, [?p1, ?p2, ?p3])"
    by (simp add: demo_json_plan)
  from t3 h1 h2 h3 demo_followups [of 0 ?q2] demo_followups [of 1 ?q3] demo_merge_empty
  have "\<exists>r rest. deep_search_3x ascii_lib (demo_world (Some (lit ''key''))) (lit ''key'') (lit ''m'')
        (lit ''q'') (lit ''pl'') 5 [] =
      (r, [?p1, ?p2, ?p3] @ HttpPost (lit ''key'')
             \<lparr>p_model = lit ''m'', p_plugins = None,
              p_prompt = SynthesisPrompt (lit ''q'') (lit ''pl'') (JObject empty_plan) (JObject empty_plan)
                (JObject empty_plan) (join [10] (numbered_source_lines (take 12 [])))\<rparr> # rest)"
    by blast
  then have d: "\<exists>r rest. deep_search_3x ascii_lib (demo_world (Some (lit ''key''))) (lit ''key'') (lit ''m'')
        (lit ''q'') (lit ''pl'') 5 [] =
      (r, [?p1, ?p2, ?p3, HttpPost (lit ''key'')
             \<lparr>p_model = lit ''m'', p_plugins = None,
              p_prompt = SynthesisPrompt (lit ''q'') (lit ''pl'') (JObject empty_plan) (JObject empty_plan)
                (JObject empty_plan) []\<rparr>] @ rest)"
    by (simp add: numbered_source_lines_def)
  from a b c d show ?thesis by blast
qed

subsection \<open>The runs of the program\<close>

lemma http_get_json_cases:
  "http_get_json L W u h t = (r, t') \<Longrightarrow>
   (\<exists>m. t' = t @ [HttpGet u h, PrintErr m] \<and> r = Inl (SystemExit 2)) \<or>
   (t' = t @ [HttpGet u h] \<and>
    (\<exists>raw. urlopen_get W = Body raw \<and> json_loads L raw = r \<and> r \<noteq> Inl JSONDecodeError))"
  by (auto simp: http_get_json_def Let_def die_def split: http_result.splits sum.splits exn.splits)

lemma changelog_cases:
  assumes "maybe_codex_cli_changelog_tldr L W q lang t = (r, t')"
  shows "(t' = t \<and> r = Inr None) \<or>
         (\<exists>m. t' = t @ [HttpGet GITHUB_RELEASES_API releases_headers, PrintErr m] \<and> r = Inl (SystemExit 2)) \<or>
         (t' = t @ [HttpGet GITHUB_RELEASES_API releases_headers])"
proof (cases "\<exists>lo hi. str_in (lit ''codex'') (str_lower L q) \<and> str_in (lit ''cli'') (str_lower L q) \<and>
    extract_codex_cli_range L q = Some (lo, hi) \<and> lo \<le> hi")
  case False
  with assms show ?thesis
    by (auto simp: maybe_codex_cli_changelog_tldr_def Let_def return_io_def split: option.splits if_splits)
next
  case True
  then obtain lo hi where c: "str_in (lit ''codex'') (str_lower L q)" "str_in (lit ''cli'') (str_lower L q)"
    "extract_codex_cli_range L q = Some (lo, hi)" "lo \<le> hi"
    by blast
  obtain g tg where g: "http_get_json L W GITHUB_RELEASES_API releases_headers t = (g, tg)"
    by (cases "http_get_json L W GITHUB_RELEASES_API releases_headers t")
  from http_get_json_cases [OF g]
  show ?thesis
  proof
    assume "\<exists>m. tg = t @ [HttpGet GITHUB_RELEASES_API releases_headers, PrintErr m] \<and> g = Inl (SystemExit 2)"
    with assms c g show ?thesis
      by (auto simp: maybe_codex_cli_changelog_tldr_def Let_def bind_io_def releases_headers_def [symmetric])
  next
    assume "tg = t @ [HttpGet GITHUB_RELEASES_API releases_headers] \<and>
      (\<exists>raw. urlopen_get W = Body raw \<and> json_loads L raw = g \<and> g \<noteq> Inl JSONDecodeError)"
    with assms c g show ?thesis
      by (cases g)
         (auto simp: maybe_codex_cli_changelog_tldr_def Let_def bind_io_def return_io_def
           releases_headers_def [symmetric] split: json.splits if_splits)
  qed
qed

lemma changelog_none_trace:
  "maybe_codex_cli_changelog_tldr L W q lang t = (Inr None, t') \<Longrightarrow>
   t' = t \<or> t' = t @ [HttpGet GITHUB_RELEASES_API releases_headers]"
  using changelog_cases [of L W q lang t "Inr None" t'] by auto

lemma main_in_range:
  "1 \<le> a_max_results a \<Longrightarrow> a_max_results a \<le> 20 \<Longrightarrow>
   maybe_codex_cli_changelog_tldr L W (a_query a) (a_lang a) t = (Inr None, t') \<Longrightarrow>
   main L W a t = llm_path L W a t'"
  by (simp add: main_def bind_io_def)

lemma run_auto_complex:
  assumes "1 \<le> a_max_results a" "a_max_results a \<le> 20"
    and "environ_api_key W = Some key" "key \<noteq> []"
    and "a_mode a = lit ''auto''"
    and "maybe_codex_cli_changelog_tldr L W (a_query a) (a_lang a) [] = (Inr None, t)"
    and "explicit_depth_intent L (a_query a) = None"
    and "classify_query L (a_query a) = lit ''complex''"
  shows "run L W a = (0, t @ [Print menu_text])"
    and "HttpPost k pl \<notin> set (snd (run L W a))"
proof -
  have "main L W a [] = llm_path L W a t"
    using assms by (intro main_in_range)
  also have "\<dots> = (Inr (), t @ [Print menu_text])"
    using assms by (simp add: llm_path_def print_io_def)
  finally show r: "run L W a = (0, t @ [Print menu_text])"
    by (simp add: run_def)
  from changelog_none_trace [OF assms(6)] have "t = [] \<or> t = [HttpGet GITHUB_RELEASES_API releases_headers]"
    by simp
  with r show "HttpPost k pl \<notin> set (snd (run L W a))"
    by auto
qed

lemma demo_query_lower:
  "str_lower ascii_lib demo_query = lit ''por'' @ [243] @ lit ''wnaj wady i zalety x i y''"
  "strip demo_query = demo_query"
  by (simp_all add: ascii_lib_def ascii_lower_def demo_query_def lit_def strip_def lstrip_def
      rstrip_def isspace_def)

lemma demo_classify: "classify_query ascii_lib demo_query = lit ''complex''"
  by (simp add: classify_query_def demo_query_lower Let_def)
     (simp add: lit_def isspace_def complexity_markers_def)

lemma demo_explicit: "explicit_depth_intent ascii_lib demo_query = None"
  by (simp add: explicit_depth_intent_def demo_query_lower Let_def)
     (simp add: lit_def deep_keywords_def simple_keywords_def)

lemma demo_changelog:
  "maybe_codex_cli_changelog_tldr ascii_lib W demo_query lang t = (Inr None, t)"
  by (simp add: maybe_codex_cli_changelog_tldr_def demo_query_lower Let_def return_io_def)
     (simp add: lit_def)

text \<open>
  Claim C6, amended. When \<open>--max-results\<close> is between 1 and 20, the API key is present
  and not empty, \<open>--mode\<close> is \<open>auto\<close>, the changelog short-circuit returns no report, the
  depth-intent detector answers nothing and the classifier answers \<open>complex\<close>, the
  program prints the two-option menu and ends with exit code 0; before the menu it did
  nothing, or only the GET of the releases listing, and it never posts to the
  chat-completion endpoint.
\<close>

theorem auto_complex_prints_menu:
  "1 \<le> a_max_results a \<and> a_max_results a \<le> 20 \<and>
   environ_api_key W = Some key \<and> key \<noteq> [] \<and>
   a_mode a = lit ''auto'' \<and>
   maybe_codex_cli_changelog_tldr L W (a_query a) (a_lang a) [] = (Inr None, t) \<and>
   explicit_depth_intent L (a_query a) = None \<and>
   classify_query L (a_query a) = lit ''complex'' \<longrightarrow>
   run L W a = (0, t @ [Print menu_text]) \<and>
   (t = [] \<or> t = [HttpGet GITHUB_RELEASES_API releases_headers]) \<and>
   (\<forall>k pl. HttpPost k pl \<notin> set (snd (run L W a)))"
  using run_auto_complex [of a W key L t] changelog_none_trace [of L W "a_query a" "a_lang a" "[]" t]
  by auto

text \<open>
  Claim C6 as amended, on the query of the specification with an API key.
\<close>

theorem auto_complex_prints_menu_witness:
  "run ascii_lib (demo_world (Some (lit ''key''))) (demo_args demo_query 5 (lit ''auto'')) =
     (0, [Print menu_text])"
proof -
  let ?W = "demo_world (Some (lit ''key''))"
  let ?a = "demo_args demo_query 5 (lit ''auto'')"
  have h: "1 \<le> a_max_results ?a \<and> a_max_results ?a \<le> 20 \<and>
      environ_api_key ?W = Some (lit ''key'') \<and> lit ''key'' \<noteq> [] \<and>
      a_mode ?a = lit ''auto'' \<and>
      maybe_codex_cli_changelog_tldr ascii_lib ?W (a_query ?a) (a_lang ?a) [] = (Inr None, []) \<and>
      explicit_depth_intent ascii_lib (a_query ?a) = None \<and>
      classify_query ascii_lib (a_query ?a) = lit ''complex''"
    by (simp add: demo_args_def demo_world_def demo_changelog demo_explicit demo_classify)
       (simp add: lit_def)
  from auto_complex_prints_menu [of ?a ?W "lit ''key''" ascii_lib "[]"] h
  show ?thesis by simp
qed

text \<open>
  Claim C6 as it is stated fails: on the same query, with the mode \<open>auto\<close>, no match of
  the changelog short-circuit, no depth intent and the class \<open>complex\<close>, but no API key in
  the environment, the program prints no menu and ends with exit code 2.
\<close>

theorem auto_complex_menu_counterexample:
  "a_mode (demo_args demo_query 5 (lit ''auto'')) = lit ''auto'' \<and>
   maybe_codex_cli_changelog_tldr ascii_lib (demo_world None) demo_query (lit ''pl'') [] = (Inr None, []) \<and>
   explicit_depth_intent ascii_lib demo_query = None \<and>
   classify_query ascii_lib demo_query = lit ''complex'' \<and>
   run ascii_lib (demo_world None) (demo_args demo_query 5 (lit ''auto'')) =
     (2, [PrintErr (lit ''Missing OPENROUTER_API_KEY in environment.'')])"
  by (simp add: demo_changelog demo_explicit demo_classify run_def main_def bind_io_def
      llm_path_def demo_args_def demo_world_def die_def)

























lemma collect_releases_empty_iff:
  "collect_releases L lo hi items [] = [] \<longleftrightarrow>
     (\<forall>m. lo \<le> m \<and> m \<le> hi \<longrightarrow> \<not> fetched_minor L items m)"
proof -
  have "collect_releases L lo hi items [] = [] \<longleftrightarrow> fst ` set (collect_releases L lo hi items []) = {}"
    by simp
  also have "\<dots> \<longleftrightarrow> (\<forall>m. lo \<le> m \<and> m \<le> hi \<longrightarrow> \<not> fetched_minor L items m)"
    unfolding collect_releases_keys by auto
  finally show ?thesis .
qed

lemma changelog_no_match:
  assumes "str_in (lit ''codex'') (str_lower L query)" "str_in (lit ''cli'') (str_lower L query)"
    and "extract_codex_cli_range L query = Some (lo, hi)"
    and "urlopen_get W = Body raw" "json_loads L raw = Inr data"
    and "(\<forall>items. data \<noteq> JArray items) \<or>
         (\<exists>items. data = JArray items \<and> (\<forall>m. lo \<le> m \<and> m \<le> hi \<longrightarrow> \<not> fetched_minor L items m))"
  shows "maybe_codex_cli_changelog_tldr L W query lang t =
           (Inr None, t @ [HttpGet GITHUB_RELEASES_API releases_headers])"
proof -
  have le: "lo \<le> hi"
    using assms(3) by (rule extract_codex_cli_range_le)
  have g: "http_get_json L W GITHUB_RELEASES_API releases_headers t =
      (Inr data, t @ [HttpGet GITHUB_RELEASES_API releases_headers])"
    using assms(4,5) by (simp add: http_get_json_def Let_def)
  have "(case data of
           JArray items \<Rightarrow>
             if collect_releases L lo hi items [] = [] then return_io None
             else return_io (Some (rstrip (join [10]
                    (changelog_lines L lang lo hi (collect_releases L lo hi items []))) @ [10]))
         | _ \<Rightarrow> return_io None) t' = (Inr None, t')" for t'
    using assms(6) by (cases data) (auto simp: collect_releases_empty_iff return_io_def)
  with assms(1-3) le g show ?thesis
    by (simp add: maybe_codex_cli_changelog_tldr_def Let_def bind_io_def return_io_def
        releases_headers_def [symmetric])
qed

text \<open>
  Claim C10. When the query mentions \<open>codex\<close> and \<open>cli\<close> and has a version range, and the
  releases response is JSON that is not a list, or is a list in which no release tagged
  \<open>rust-v0.NN.0\<close> has its minor in the range, the changelog short-circuit returns no
  report, having done the GET only and printed nothing; then \<open>main\<close>, its
  \<open>--max-results\<close> being valid, goes on with the lookup of the API key, and without a key
  it ends with exit code 2 and the diagnostic of the missing key.
\<close>

theorem changelog_no_match_falls_through:
  "str_in (lit ''codex'') (str_lower L query) \<and> str_in (lit ''cli'') (str_lower L query) \<and>
   extract_codex_cli_range L query = Some (lo, hi) \<and>
   urlopen_get W = Body raw \<and> json_loads L raw = Inr data \<and>
   ((\<forall>items. data \<noteq> JArray items) \<or>
    (\<exists>items. data = JArray items \<and> (\<forall>m. lo \<le> m \<and> m \<le> hi \<longrightarrow> \<not> fetched_minor L items m))) \<longrightarrow>
   maybe_codex_cli_changelog_tldr L W query lang t =
     (Inr None, t @ [HttpGet GITHUB_RELEASES_API releases_headers]) \<and>
   (a_query a = query \<and> a_lang a = lang \<and> 1 \<le> a_max_results a \<and> a_max_results a \<le> 20 \<longrightarrow>
      main L W a [] = llm_path L W a [HttpGet GITHUB_RELEASES_API releases_headers] \<and>
      (environ_api_key W = None \<or> environ_api_key W = Some [] \<longrightarrow>
         run L W a =
           (2, [HttpGet GITHUB_RELEASES_API releases_headers,
                PrintErr (lit ''Missing OPENROUTER_API_KEY in environment.'')])))"
proof (intro impI)
  assume h: "str_in (lit ''codex'') (str_lower L query) \<and> str_in (lit ''cli'') (str_lower L query) \<and>
   extract_codex_cli_range L query = Some (lo, hi) \<and>
   urlopen_get W = Body raw \<and> json_loads L raw = Inr data \<and>
   ((\<forall>items. data \<noteq> JArray items) \<or>
    (\<exists>items. data = JArray items \<and> (\<forall>m. lo \<le> m \<and> m \<le> hi \<longrightarrow> \<not> fetched_minor L items m)))"
  then have c: "maybe_codex_cli_changelog_tldr L W query lang t' =
     (Inr None, t' @ [HttpGet GITHUB_RELEASES_API releases_headers])" for t'
    by (intro changelog_no_match [of L query lo hi W raw data]) blast+
  have m: "main L W a [] = llm_path L W a [HttpGet GITHUB_RELEASES_API releases_headers]"
    if "a_query a = query \<and> a_lang a = lang \<and> 1 \<le> a_max_results a \<and> a_max_results a \<le> 20"
    using that c [of "[]"] main_in_range [of a L W "[]" "[HttpGet GITHUB_RELEASES_API releases_headers]"]
    by simp
  have r: "run L W a =
           (2, [HttpGet GITHUB_RELEASES_API releases_headers,
                PrintErr (lit ''Missing OPENROUTER_API_KEY in environment.'')])"
    if "a_query a = query \<and> a_lang a = lang \<and> 1 \<le> a_max_results a \<and> a_max_results a \<le> 20"
      and "environ_api_key W = None \<or> environ_api_key W = Some []"
    using m [OF that(1)] that(2) by (auto simp: run_def llm_path_def die_def)
  from c [of t] m r
  show "maybe_codex_cli_changelog_tldr L W query lang t =
     (Inr None, t @ [HttpGet GITHUB_RELEASES_API releases_headers]) \<and>
   (a_query a = query \<and> a_lang a = lang \<and> 1 \<le> a_max_results a \<and> a_max_results a \<le> 20 \<longrightarrow>
      main L W a [] = llm_path L W a [HttpGet GITHUB_RELEASES_API releases_headers] \<and>
      (environ_api_key W = None \<or> environ_api_key W = Some [] \<longrightarrow>
         run L W a =
           (2, [HttpGet GITHUB_RELEASES_API releases_headers,
                PrintErr (lit ''Missing OPENROUTER_API_KEY in environment.'')])))"
    by blast
qed

lemma demo_codex_query:
  "str_in (lit ''codex'') (str_lower ascii_lib (lit ''codex cli 0.87''))"
  "str_in (lit ''cli'') (str_lower ascii_lib (lit ''codex cli 0.87''))"
  by (simp_all add: ascii_lib_def ascii_lower_def lit_def)

lemma demo_codex_range: "extract_codex_cli_range ascii_lib (lit ''codex cli 0.87'') = Some (87, 87)"
  by (rule range_example_87) (simp add: ascii_lib_def)

lemma demo_loads_small:
  "json_loads ascii_lib (lit ''{}'') = Inr (JObject [])"
  "json_loads ascii_lib (lit ''[]'') = Inr (JArray [])"
  by (simp_all add: ascii_lib_def lit_def)

text \<open>
  Claim C10 on the query \<open>codex cli 0.87\<close> with the responses \<open>{}\<close> and \<open>[]\<close>.
\<close>

theorem changelog_no_match_falls_through_witness:
  "run ascii_lib (demo_world None) (demo_args (lit ''codex cli 0.87'') 5 (lit ''auto'')) =
     (2, [HttpGet GITHUB_RELEASES_API releases_headers,
          PrintErr (lit ''Missing OPENROUTER_API_KEY in environment.'')]) \<and>
   run ascii_lib (demo_world_list None) (demo_args (lit ''codex cli 0.87'') 5 (lit ''auto'')) =
     (2, [HttpGet GITHUB_RELEASES_API releases_headers,
          PrintErr (lit ''Missing OPENROUTER_API_KEY in environment.'')]) \<and>
   maybe_codex_cli_changelog_tldr ascii_lib (demo_world_list None) (lit ''codex cli 0.87'') (lit ''pl'') [] =
     (Inr None, [HttpGet GITHUB_RELEASES_API releases_headers])"
proof -
  let ?a = "demo_args (lit ''codex cli 0.87'') 5 (lit ''auto'')"
  have args: "a_query ?a = lit ''codex cli 0.87'' \<and> a_lang ?a = lit ''pl'' \<and>
      1 \<le> a_max_results ?a \<and> a_max_results ?a \<le> 20"
    by (simp add: demo_args_def)
  have h1: "str_in (lit ''codex'') (str_lower ascii_lib (lit ''codex cli 0.87'')) \<and>
      str_in (lit ''cli'') (str_lower ascii_lib (lit ''codex cli 0.87'')) \<and>
      extract_codex_cli_range ascii_lib (lit ''codex cli 0.87'') = Some (87, 87) \<and>
      urlopen_get (demo_world None) = Body (lit ''{}'') \<and>
      json_loads ascii_lib (lit ''{}'') = Inr (JObject []) \<and>
      ((\<forall>items. JObject [] \<noteq> JArray items) \<or>
       (\<exists>items. JObject [] = JArray items \<and>
          (\<forall>m. 87 \<le> m \<and> m \<le> 87 \<longrightarrow> \<not> fetched_minor ascii_lib items m)))"
    by (simp add: demo_codex_query demo_codex_range demo_world_def demo_loads_small)
  have h2: "str_in (lit ''codex'') (str_lower ascii_lib (lit ''codex cli 0.87'')) \<and>
      str_in (lit ''cli'') (str_lower ascii_lib (lit ''codex cli 0.87'')) \<and>
      extract_codex_cli_range ascii_lib (lit ''codex cli 0.87'') = Some (87, 87) \<and>
      urlopen_get (demo_world_list None) = Body (lit ''[]'') \<and>
      json_loads ascii_lib (lit ''[]'') = Inr (JArray []) \<and>
      ((\<forall>items. JArray [] \<noteq> JArray items) \<or>
       (\<exists>items. JArray [] = JArray items \<and>
          (\<forall>m. 87 \<le> m \<and> m \<le> 87 \<longrightarrow> \<not> fetched_minor ascii_lib items m)))"
    by (simp add: demo_codex_query demo_codex_range demo_world_list_def demo_world_def
        fetched_minor_Nil demo_loads_small)
  have n1: "environ_api_key (demo_world None) = None \<or> environ_api_key (demo_world None) = Some []"
    by (simp add: demo_world_def)
  have n2: "environ_api_key (demo_world_list None) = None \<or> environ_api_key (demo_world_list None) = Some []"
    by (simp add: demo_world_list_def demo_world_def)
  note t1 = changelog_no_match_falls_through [of ascii_lib "lit ''codex cli 0.87''" 87 87 "demo_world None"
      "lit ''{}''" "JObject []" "lit ''pl''" "[]" ?a]
  note t2 = changelog_no_match_falls_through [of ascii_lib "lit ''codex cli 0.87''" 87 87 "demo_world_list None"
      "lit ''[]''" "JArray []" "lit ''pl''" "[]" ?a]
  from t1 h1 args n1 have a: "run ascii_lib (demo_world None) ?a =
     (2, [HttpGet GITHUB_RELEASES_API releases_headers,
          PrintErr (lit ''Missing OPENROUTER_API_KEY in environment.'')])"
    by blast
  from t2 h2 args n2 have b: "run ascii_lib (demo_world_list None) ?a =
     (2, [HttpGet GITHUB_RELEASES_API releases_headers,
          PrintErr (lit ''Missing OPENROUTER_API_KEY in environment.'')])"
    by blast
  from t2 h2 have c: "maybe_codex_cli_changelog_tldr ascii_lib (demo_world_list None) (lit ''codex cli 0.87'')
      (lit ''pl'') [] = (Inr None, [] @ [HttpGet GITHUB_RELEASES_API releases_headers])"
    by blast
  from a b c show ?thesis by simp
qed

end
